theory Spec2Isabelle
  imports Main "HOL-Library.Multiset" "HOL-Library.Product_Lexorder"
begin

section \<open>Card model (types.ts, logic.ts)\<close>

text \<open>
  \<^verbatim>\<open>Suit = "Spades" | "Hearts" | "Diamonds" | "Clubs"\<close>.  A card's rank is a string in
  the source; every card comes from \<^verbatim>\<open>createDeck\<close>, whose ranks are the thirteen keys
  of \<^verbatim>\<open>RankOrder\<close>, so the model takes those thirteen strings as a datatype
  (\<open>R3\<close> is the string "3", \<open>RJ\<close> is "J", and so on).
\<close>

datatype suit = Spades | Hearts | Diamonds | Clubs

datatype rank = R3 | R4 | R5 | R6 | R7 | R8 | R9 | R10 | RJ | RQ | RK | RA | R2

fun SuitOrder :: "suit \<Rightarrow> int" where
  "SuitOrder Spades = 3"
| "SuitOrder Hearts = 2"
| "SuitOrder Diamonds = 1"
| "SuitOrder Clubs = 0"

fun RankOrder :: "rank \<Rightarrow> int" where
  "RankOrder R3 = 0"
| "RankOrder R4 = 1"
| "RankOrder R5 = 2"
| "RankOrder R6 = 3"
| "RankOrder R7 = 4"
| "RankOrder R8 = 5"
| "RankOrder R9 = 6"
| "RankOrder R10 = 7"
| "RankOrder RJ = 8"
| "RankOrder RQ = 9"
| "RankOrder RK = 10"
| "RankOrder RA = 11"
| "RankOrder R2 = 12"

record card =
  suit :: suit
  rank :: rank
  card_id :: string

datatype handType =
  Single | PairH | Straight | FullHouse | FourOfAKind | StraightFlush | Dragon | NoneH

record hand =
  cards :: "card list"
  htype :: handType
  strength :: int

definition getCardWeight :: "card \<Rightarrow> int" where
  "getCardWeight c = RankOrder (rank c) * 10 + SuitOrder (suit c)"

text \<open>
  \<^verbatim>\<open>[...cards].sort((a, b) => getCardWeight(a) - getCardWeight(b))\<close>: the sort of the
  language is stable and the comparator is the difference of an integer key, so the result
  is the stable ascending sort by that key.
\<close>

definition sortCards :: "card list \<Rightarrow> card list" where
  "sortCards cs = sort_key getCardWeight cs"

section \<open>Hand classifier (logic.ts, identifyHand)\<close>

definition isStandardStraight :: "int list \<Rightarrow> bool" where
  "isStandardStraight weights =
     list_all (\<lambda>i. weights ! (i + 1) = weights ! i + 1) [0, 1, 2, 3]"

definition hasRank :: "card list \<Rightarrow> rank \<Rightarrow> bool" where
  "hasRank srt r = (r \<in> set (map rank srt))"

definition isA2345 :: "card list \<Rightarrow> bool" where
  "isA2345 srt =
     (hasRank srt RA \<and> hasRank srt R2 \<and> hasRank srt R3 \<and>
      hasRank srt R4 \<and> hasRank srt R5)"

definition is23456 :: "card list \<Rightarrow> bool" where
  "is23456 srt =
     (hasRank srt R2 \<and> hasRank srt R3 \<and> hasRank srt R4 \<and>
      hasRank srt R5 \<and> hasRank srt R6)"

text \<open>The pair (sequenceRank, rankingCardRank) of the straight branch.\<close>

definition sequenceRank :: "card list \<Rightarrow> int \<times> rank" where
  "sequenceRank srt =
     (if is23456 srt then (10, R6)
      else if isA2345 srt then (1, R5)
      else (RankOrder (rank (srt ! 4)) - 2, rank (srt ! 4)))"

text \<open>
  The five-card branch.  \<^verbatim>\<open>sorted.find(...)!\<close> is a non-null assertion: were the ranking
  card absent the source would raise on \<^verbatim>\<open>rankingCard.suit\<close>; lemma
  \<open>rankingCard_found\<close> below shows that the search always succeeds, and the model
  gives \<open>None\<close> to that unreachable branch.
\<close>

definition identifyFive :: "card list \<Rightarrow> hand option" where
  "identifyFive srt =
     (let weights = map (\<lambda>c. RankOrder (rank c)) srt in
      if isStandardStraight weights \<or> isA2345 srt \<or> is23456 srt then
        (let isFlush = list_all (\<lambda>c. suit c = suit (srt ! 0)) srt;
             (seqRank, rankingCardRank) = sequenceRank srt
         in case find (\<lambda>c. rank c = rankingCardRank) srt of
              None \<Rightarrow> None
            | Some rankingCard \<Rightarrow>
                (let str = seqRank * 10 + SuitOrder (suit rankingCard) in
                 if isFlush
                 then Some \<lparr>cards = srt, htype = StraightFlush, strength = str\<rparr>
                 else Some \<lparr>cards = srt, htype = Straight, strength = str\<rparr>))
      else if rank (srt ! 0) = rank (srt ! 3) \<or> rank (srt ! 1) = rank (srt ! 4)
      then Some \<lparr>cards = srt, htype = FourOfAKind,
                  strength = RankOrder (rank (srt ! 2))\<rparr>
      else if (rank (srt ! 0) = rank (srt ! 2) \<and> rank (srt ! 3) = rank (srt ! 4))
              \<or> (rank (srt ! 0) = rank (srt ! 1) \<and> rank (srt ! 2) = rank (srt ! 4))
      then Some \<lparr>cards = srt, htype = FullHouse,
                  strength = RankOrder (rank (srt ! 2))\<rparr>
      else None)"

text \<open>
  \<^verbatim>\<open>identifyHand(cards): Hand | null\<close>; \<open>None\<close> is the source's null.  The size of
  \<^verbatim>\<open>new Set(cards.map(c => c.rank))\<close> is the number of distinct ranks.  A 13-card group
  that is no Dragon falls through to the final \<^verbatim>\<open>return null\<close>.
\<close>

definition identifyHand :: "card list \<Rightarrow> hand option" where
  "identifyHand cs =
     (if length cs = 0 then None
      else
        (let srt = sortCards cs in
         if length cs = 1
         then Some \<lparr>cards = srt, htype = Single, strength = getCardWeight (srt ! 0)\<rparr>
         else if length cs = 2
         then (if rank (srt ! 0) = rank (srt ! 1)
               then Some \<lparr>cards = srt, htype = PairH,
                           strength = max (getCardWeight (srt ! 0))
                                          (getCardWeight (srt ! 1))\<rparr>
               else None)
         else if length cs = 13 \<and> length (remdups (map rank cs)) = 13
         then Some \<lparr>cards = srt, htype = Dragon, strength = getCardWeight (srt ! 12)\<rparr>
         else if length cs = 5 then identifyFive srt
         else None))"



section \<open>Hand comparator (logic.ts, compareHands)\<close>

fun HandTypeOrder :: "handType \<Rightarrow> int" where
  "HandTypeOrder NoneH = 0"
| "HandTypeOrder Single = 1"
| "HandTypeOrder PairH = 1"
| "HandTypeOrder Straight = 2"
| "HandTypeOrder FullHouse = 3"
| "HandTypeOrder FourOfAKind = 4"
| "HandTypeOrder StraightFlush = 5"
| "HandTypeOrder Dragon = 6"

definition isBomb :: "hand \<Rightarrow> bool" where
  "isBomb h = (htype h = FourOfAKind \<or> htype h = StraightFlush)"

definition compareHands :: "hand \<Rightarrow> hand \<Rightarrow> bool" where
  "compareHands newHand prevHand =
     (if isBomb newHand then
        (if isBomb prevHand then
           (if HandTypeOrder (htype newHand) > HandTypeOrder (htype prevHand) then True
            else if HandTypeOrder (htype newHand) = HandTypeOrder (htype prevHand)
            then strength newHand > strength prevHand
            else False)
         else True)
      else if length (cards newHand) \<noteq> length (cards prevHand) then False
      else if htype newHand \<noteq> htype prevHand then False
      else strength newHand > strength prevHand)"

text \<open>\<^verbatim>\<open>createDeck\<close> gives the card of rank r and suit s the id \<^verbatim>\<open>`${rank}-${suit}`\<close>.\<close>

fun rankName :: "rank \<Rightarrow> string" where
  "rankName R3 = ''3''" | "rankName R4 = ''4''" | "rankName R5 = ''5''"
| "rankName R6 = ''6''" | "rankName R7 = ''7''" | "rankName R8 = ''8''"
| "rankName R9 = ''9''" | "rankName R10 = ''10''" | "rankName RJ = ''J''"
| "rankName RQ = ''Q''" | "rankName RK = ''K''" | "rankName RA = ''A''"
| "rankName R2 = ''2''"

fun suitName :: "suit \<Rightarrow> string" where
  "suitName Spades = ''Spades''" | "suitName Hearts = ''Hearts''"
| "suitName Diamonds = ''Diamonds''" | "suitName Clubs = ''Clubs''"

definition mkCard :: "rank \<Rightarrow> suit \<Rightarrow> card" where
  "mkCard r s = \<lparr>suit = s, rank = r, card_id = rankName r @ ''-'' @ suitName s\<rparr>"

definition createDeck :: "card list" where
  "createDeck =
     concat (map (\<lambda>s. map (\<lambda>r. mkCard r s) [R3, R4, R5, R6, R7, R8, R9, R10, RJ, RQ, RK, RA, R2])
                 [Spades, Hearts, Diamonds, Clubs])"

section \<open>Combination enumerator (evaluate.ts)\<close>

datatype category = Bomb | Five | PairC | SingleC

record cardCombination =
  c_cards :: "card list"
  c_hand :: hand
  priority :: int
  category :: category

record handEvaluation =
  bombs :: "cardCombination list"
  fiveCards :: "cardCombination list"
  pairs :: "cardCombination list"
  singles :: "card list"
  totalStrength :: int

text \<open>
  \<^verbatim>\<open>Object.values(byRank)\<close> lists the groups in the property order of the language: the
  keys that are canonical array indices ("2" to "10") first, in ascending numeric order,
  then the other keys ("J", "Q", "K", "A") in the order of their first insertion.
\<close>

definition integerKeys :: "rank list" where
  "integerKeys = [R2, R3, R4, R5, R6, R7, R8, R9, R10]"

definition objectKeys :: "card list \<Rightarrow> rank list" where
  "objectKeys cs =
     filter (\<lambda>r. r \<in> set (map rank cs)) integerKeys
     @ rev (remdups (rev (filter (\<lambda>r. r \<notin> set integerKeys) (map rank cs))))"

definition byRank :: "card list \<Rightarrow> card list list" where
  "byRank cs = map (\<lambda>r. filter (\<lambda>c. rank c = r) cs) (objectKeys cs)"

definition RANK_ORDER :: "rank list" where
  "RANK_ORDER = [R3, R4, R5, R6, R7, R8, R9, R10, RJ, RQ, RK, RA, R2]"

text \<open>
  The inner loop of the straight search: one \<^verbatim>\<open>cards.find(x => x.rank === r)\<close> for each
  rank of the window, given up at the first rank that is absent.
\<close>

fun pickRanks :: "card list \<Rightarrow> rank list \<Rightarrow> card list option" where
  "pickRanks cs [] = Some []"
| "pickRanks cs (r # rs) =
     (case find (\<lambda>x. rank x = r) cs of
        None \<Rightarrow> None
      | Some c \<Rightarrow> (case pickRanks cs rs of None \<Rightarrow> None | Some picked \<Rightarrow> Some (c # picked)))"

definition rankWindows :: "rank list list" where
  "rankWindows = map (\<lambda>i. take 5 (drop i RANK_ORDER)) [0, 1, 2, 3, 4, 5, 6, 7, 8]"

definition findAllStraights :: "card list \<Rightarrow> card list list" where
  "findAllStraights cs =
     List.map_filter (pickRanks cs) rankWindows
     @ (if list_all (\<lambda>r. list_ex (\<lambda>c. rank c = r) cs) [RA, R2, R3, R4, R5]
        then List.map_filter (pickRanks cs) [[RA, R2, R3, R4, R5]] else [])"

text \<open>The body of the four-of-a-kind loop, for one quad and one candidate kicker.\<close>

definition fourOfAKindOf :: "card list \<Rightarrow> card \<Rightarrow> cardCombination option" where
  "fourOfAKindOf quad kicker =
     (if rank kicker \<noteq> rank (quad ! 0) then
        (let handCards = quad @ [kicker] in
         case identifyHand handCards of
           None \<Rightarrow> None
         | Some h \<Rightarrow>
             if htype h = FourOfAKind
             then Some \<lparr>c_cards = handCards, c_hand = h,
                         priority = strength h + 10000, category = Bomb\<rparr>
             else None)
      else None)"

definition fourOfAKindCombos :: "card list \<Rightarrow> cardCombination list" where
  "fourOfAKindCombos cs =
     concat (map (\<lambda>quad. List.map_filter (fourOfAKindOf quad) cs)
                 (filter (\<lambda>g. length g = 4) (byRank cs)))"

text \<open>The body of the full-house loop, for one triple group and one pair group.\<close>

definition fullHouseOf :: "card list \<Rightarrow> card list \<Rightarrow> cardCombination option" where
  "fullHouseOf t p =
     (if rank (t ! 0) \<noteq> rank (p ! 0) then
        (let handCards = take 3 t @ take 2 p in
         case identifyHand handCards of
           None \<Rightarrow> None
         | Some h \<Rightarrow>
             if htype h = FullHouse
             then Some \<lparr>c_cards = handCards, c_hand = h,
                         priority = strength h, category = Five\<rparr>
             else None)
      else None)"

definition fullHouseCombos :: "card list \<Rightarrow> cardCombination list" where
  "fullHouseCombos cs =
     (let triples = filter (\<lambda>g. length g \<ge> 3) (byRank cs);
          prs = filter (\<lambda>g. length g \<ge> 2) (byRank cs)
      in concat (map (\<lambda>t. List.map_filter (fullHouseOf t) prs) triples))"

text \<open>The body of the straight loop, for one list of picked cards.\<close>

definition straightOf :: "card list \<Rightarrow> cardCombination option" where
  "straightOf straight =
     (case identifyHand straight of
        None \<Rightarrow> None
      | Some h \<Rightarrow>
          Some \<lparr>c_cards = straight, c_hand = h,
                priority = (if htype h = StraightFlush then strength h + 10000 else strength h),
                category = (if htype h = StraightFlush then Bomb else Five)\<rparr>)"

definition straightCombos :: "card list \<Rightarrow> cardCombination list" where
  "straightCombos cs = List.map_filter straightOf (findAllStraights cs)"

text \<open>
  \<^verbatim>\<open>results.sort((a, b) => b.priority - a.priority)\<close>: the stable sort by descending
  priority.
\<close>

definition sortByPriority :: "cardCombination list \<Rightarrow> cardCombination list" where
  "sortByPriority xs = sort_key (\<lambda>c. - priority c) xs"

definition findAllFiveCardHands :: "card list \<Rightarrow> cardCombination list" where
  "findAllFiveCardHands cs =
     sortByPriority (fourOfAKindCombos cs @ fullHouseCombos cs @ straightCombos cs)"

text \<open>The scan \<^verbatim>\<open>for (i = 0; i < cards.length - 1; i++)\<close> over adjacent cards of equal rank.\<close>

fun getAllPairs :: "card list \<Rightarrow> card list list" where
  "getAllPairs (a # b # rest) =
     (if rank a = rank b then [a, b] # getAllPairs (b # rest) else getAllPairs (b # rest))"
| "getAllPairs [a] = []"
| "getAllPairs [] = []"

definition pairOf :: "card list \<Rightarrow> cardCombination option" where
  "pairOf p =
     (case identifyHand p of
        None \<Rightarrow> None
      | Some h \<Rightarrow> Some \<lparr>c_cards = p, c_hand = h, priority = strength h, category = PairC\<rparr>)"

definition findAllPairs :: "card list \<Rightarrow> cardCombination list" where
  "findAllPairs cs = sortByPriority (List.map_filter pairOf (getAllPairs cs))"

definition calculateStrength ::
  "cardCombination list \<Rightarrow> cardCombination list \<Rightarrow> cardCombination list \<Rightarrow> card list \<Rightarrow> int" where
  "calculateStrength bs fives prs sgl =
     int (length bs) * 1000 + int (length fives) * 200 + int (length prs) * 30
     - 5 * int (length (filter (\<lambda>c. getCardWeight c \<ge> 40) sgl))"

definition usedIds :: "cardCombination list \<Rightarrow> string list" where
  "usedIds combos = concat (map (\<lambda>c. map card_id (c_cards c)) combos)"

definition evaluateHand :: "card list \<Rightarrow> handEvaluation" where
  "evaluateHand cs =
     (let srt = sortCards cs;
          fiveCs = findAllFiveCardHands srt;
          bs = filter (\<lambda>c. htype (c_hand c) = FourOfAKind \<or> htype (c_hand c) = StraightFlush) fiveCs;
          normalFives =
            filter (\<lambda>c. htype (c_hand c) \<noteq> FourOfAKind \<and> htype (c_hand c) \<noteq> StraightFlush) fiveCs;
          prs = findAllPairs srt;
          used = usedIds (bs @ normalFives @ prs);
          sgl = filter (\<lambda>c. card_id c \<notin> set used) srt
      in \<lparr>bombs = bs, fiveCards = normalFives, pairs = prs, singles = sgl,
          totalStrength = calculateStrength bs normalFives prs sgl\<rparr>)"

section \<open>Lookahead move selection (bot-strategy.ts)\<close>

record botContext =
  myHandSize :: int
  opponentsHandSizes :: "int list"
  lastPlayedHand :: "hand option"
  consecutivePasses :: int

text \<open>
  A score is a number of the language: an integer, or \<^verbatim>\<open>-Infinity\<close>, the start value of
  the maximum in \<^verbatim>\<open>simulateFuture\<close>, which survives when the loop has no move to try.
\<close>

datatype score = NegInf | Fin int

fun splus :: "score \<Rightarrow> score \<Rightarrow> score" where
  "splus (Fin a) (Fin b) = Fin (a + b)"
| "splus _ _ = NegInf"

fun smax :: "score \<Rightarrow> score \<Rightarrow> score" where
  "smax (Fin a) (Fin b) = Fin (max a b)"
| "smax NegInf s = s"
| "smax s NegInf = s"

text \<open>
  The single-card candidate \<^verbatim>\<open>{cards: [c], hand: identifyHand([c])!, ...}\<close>; the
  classifier never returns null on one card (lemma \<open>identifyHand_single\<close>).
\<close>

definition singleMove :: "card \<Rightarrow> cardCombination" where
  "singleMove c =
     \<lparr>c_cards = [c], c_hand = the (identifyHand [c]), priority = getCardWeight c,
      category = SingleC\<rparr>"

definition canBeat :: "hand \<Rightarrow> hand \<Rightarrow> bool" where
  "canBeat my lst =
     (if (htype my = FourOfAKind \<or> htype my = StraightFlush)
         \<and> (htype lst \<noteq> FourOfAKind \<and> htype lst \<noteq> StraightFlush) then True
      else if htype my \<noteq> htype lst then False
      else strength my > strength lst)"

definition getAllLegalMoves ::
  "card list \<Rightarrow> handEvaluation \<Rightarrow> hand option \<Rightarrow> cardCombination list" where
  "getAllLegalMoves cs evaluation lastPlayed =
     (case lastPlayed of
        None \<Rightarrow> fiveCards evaluation @ pairs evaluation @ map singleMove (singles evaluation)
      | Some lst \<Rightarrow>
          filter (\<lambda>m. canBeat (c_hand m) lst)
            (bombs evaluation @ fiveCards evaluation @ pairs evaluation
             @ map singleMove (singles evaluation)))"

definition removeCards :: "card list \<Rightarrow> card list \<Rightarrow> card list" where
  "removeCards allCs used = filter (\<lambda>c. card_id c \<notin> set (map card_id used)) allCs"

definition evaluateEndState :: "card list \<Rightarrow> int" where
  "evaluateEndState cs =
     - (int (length cs) * 10) - 5 * int (length (filter (\<lambda>c. getCardWeight c \<ge> 40) cs))"

definition moveCost :: "cardCombination \<Rightarrow> handEvaluation \<Rightarrow> int" where
  "moveCost move evaluation =
     (let protectedIds = usedIds (fiveCards evaluation @ bombs evaluation) in
      (if category move = SingleC then 2 else 0)
      + (if category move = PairC then 3 else 0)
      + 20 * int (length (filter (\<lambda>c. card_id c \<in> set protectedIds \<and> length (c_cards move) < 5)
                                 (c_cards move)))
      + (if category move = Bomb then 10 else 0))"

fun simulateFuture :: "card list \<Rightarrow> nat \<Rightarrow> score" where
  "simulateFuture cs 0 = Fin (evaluateEndState cs)"
| "simulateFuture cs (Suc depth) =
     (if length cs = 0 then Fin (evaluateEndState cs)
      else
        (let evalHand = evaluateHand cs;
             moves = fiveCards evalHand @ pairs evalHand @ map singleMove (singles evalHand)
         in foldl (\<lambda>best m.
                     smax best (splus (Fin (- moveCost m evalHand))
                                      (simulateFuture (removeCards cs (c_cards m)) depth)))
                  NegInf moves))"

definition immediateScore :: "cardCombination \<Rightarrow> handEvaluation \<Rightarrow> int" where
  "immediateScore move evaluation =
     int (length (c_cards move)) * 15
     + (if category move = Five then 20 else 0)
     + (if category move = Bomb then 50 else 0)
     - moveCost move evaluation"

text \<open>
  In the single branch \<^verbatim>\<open>move.cards[0]\<close> exists: a candidate of category single is made
  by \<open>singleMove\<close> only.
\<close>

definition dangerAdjustment :: "cardCombination \<Rightarrow> bool \<Rightarrow> botContext \<Rightarrow> int" where
  "dangerAdjustment move dangerousOpponent ctx =
     (if \<not> dangerousOpponent then 0
      else if category move = Bomb then 30
      else if category move = SingleC \<and> getCardWeight (c_cards move ! 0) < 30 then - 20
      else 0)"

text \<open>
  \<^verbatim>\<open>scored.sort((a, b) => b.score - a.score)\<close>: a finite score sorts before
  \<^verbatim>\<open>-Infinity\<close>, and the difference of two \<^verbatim>\<open>-Infinity\<close> is NaN, which the sort takes
  as "equal"; the stable sort by the key below does the same.
\<close>

fun scoreKey :: "score \<Rightarrow> nat \<times> int" where
  "scoreKey NegInf = (1, 0)"
| "scoreKey (Fin n) = (0, - n)"

definition chooseBestMove :: "card list \<Rightarrow> handEvaluation \<Rightarrow> botContext \<Rightarrow> card list option" where
  "chooseBestMove cs evaluation ctx =
     (let legalMoves = getAllLegalMoves cs evaluation (lastPlayedHand ctx) in
      if length legalMoves = 0 then None
      else
        (let dangerousOpponent = list_ex (\<lambda>s. s \<le> 3) (opponentsHandSizes ctx);
             scored = map (\<lambda>move.
                        (move,
                         splus (splus (simulateFuture (removeCards cs (c_cards move)) 2)
                                      (Fin (immediateScore move evaluation)))
                               (Fin (dangerAdjustment move dangerousOpponent ctx))))
                      legalMoves;
             ranked = sort_key (\<lambda>ms. scoreKey (snd ms)) scored
         in Some (c_cards (fst (ranked ! 0)))))"

section \<open>Rank-based move selection (logic.ts, getSmartBotPlay)\<close>

definition findFiveCardHands :: "card list \<Rightarrow> card list list" where
  "findFiveCardHands hnd =
     (let srt = sortCards hnd;
          groups = byRank srt;
          triples = filter (\<lambda>g. length g \<ge> 3) groups;
          prs = filter (\<lambda>g. length g \<ge> 2) groups;
          quads = filter (\<lambda>g. length g = 4) groups
      in concat (map (\<lambda>t. map (\<lambda>p. take 3 t @ take 2 p)
                              (filter (\<lambda>p. rank (p ! 0) \<noteq> rank (t ! 0)) prs)) triples)
         @ concat (map (\<lambda>q. map (\<lambda>c. q @ [c])
                              (filter (\<lambda>c. rank c \<noteq> rank (q ! 0)) srt)) quads)
         @ List.map_filter (pickRanks srt) rankWindows
         @ List.map_filter (pickRanks srt) [[RA, R2, R3, R4, R5]]
         @ List.map_filter (pickRanks srt) [[R2, R3, R4, R5, R6]])"

text \<open>
  What the source does where the model cannot return a card list: \<open>TypeError\<close> is the
  exception of \<^verbatim>\<open>getCardWeight(undefined)\<close>, raised when the last card of an empty hand
  is read; \<open>UndefinedCard\<close> is the array \<^verbatim>\<open>[sorted[0]]\<close> of an empty hand, which
  holds \<^verbatim>\<open>undefined\<close> and no card (no exception is raised).
\<close>

datatype js_failure = TypeError | UndefinedCard

definition firstCard :: "card list \<Rightarrow> js_failure + card list option" where
  "firstCard srt = (case srt of [] \<Rightarrow> Inl UndefinedCard | c # _ \<Rightarrow> Inr (Some [c]))"

definition myBombsOf :: "card list list \<Rightarrow> card list list" where
  "myBombsOf myFives = map cards (filter isBomb (List.map_filter identifyHand myFives))"

definition dangerous :: "int list option \<Rightarrow> bool" where
  "dangerous opp = list_ex (\<lambda>size. size \<le> 3) (case opp of None \<Rightarrow> [] | Some xs \<Rightarrow> xs)"

definition validPairs :: "card list \<Rightarrow> hand \<Rightarrow> card list list" where
  "validPairs srt lastPlayed =
     filter (\<lambda>p. case identifyHand p of None \<Rightarrow> False
                 | Some h \<Rightarrow> strength h > strength lastPlayed)
            (getAllPairs srt)"

definition firstTurnPlay :: "card list \<Rightarrow> js_failure + card list option" where
  "firstTurnPlay srt =
     (case find (\<lambda>c. rank c = R3 \<and> suit c = Clubs) srt of
        None \<Rightarrow> firstCard srt
      | Some club3 \<Rightarrow>
          (let fives = filter (\<lambda>f. list_ex (\<lambda>c. card_id c = card_id club3) f)
                              (findFiveCardHands srt) in
           if length fives > 0 then Inr (Some (fives ! 0))
           else
             (let prs = filter (\<lambda>p. list_ex (\<lambda>c. card_id c = card_id club3) p)
                               (getAllPairs srt) in
              if length prs > 0 then Inr (Some (prs ! 0))
              else Inr (Some [club3]))))"

definition leadPlay :: "card list \<Rightarrow> card list \<Rightarrow> card list list \<Rightarrow> js_failure + card list option" where
  "leadPlay hnd srt myFives =
     (let isLateGame = length hnd \<le> 5 in
      if length hnd \<le> 5 \<and> length myFives > 0 \<and> length hnd = 5 then Inr (Some (myFives ! 0))
      else
        (let nonBombs =
               filter (\<lambda>cs. case identifyHand cs of None \<Rightarrow> False
                            | Some h \<Rightarrow> htype h \<noteq> FourOfAKind \<and> htype h \<noteq> StraightFlush)
                      myFives in
         if length myFives > 0 \<and> \<not> isLateGame \<and> length nonBombs > 0
         then Inr (Some (nonBombs ! 0))
         else if length myFives > 0 \<and> isLateGame then Inr (Some (myFives ! 0))
         else
           (let prs = getAllPairs srt in
            if length prs > 0 then Inr (Some (prs ! 0))
            else
              (let smallCards = filter (\<lambda>c. RankOrder (rank c) < 8) srt in
               if length smallCards > 0 then Inr (Some [smallCards ! 0])
               else firstCard srt))))"

definition followSingle ::
  "card list \<Rightarrow> card list \<Rightarrow> card list list \<Rightarrow> hand \<Rightarrow> int list option \<Rightarrow> int option
   \<Rightarrow> js_failure + card list option" where
  "followSingle hnd srt myBombs lastPlayed opp nextPlayerHandSize =
     (if nextPlayerHandSize = Some 1 then
        (if srt = [] then Inl TypeError
         else
           (let myLargest = srt ! (length srt - 1) in
            if getCardWeight myLargest > strength lastPlayed then Inr (Some [myLargest])
            else if length myBombs > 0 then Inr (Some (myBombs ! 0))
            else Inr None))
      else
        (let validCards = filter (\<lambda>c. getCardWeight c > strength lastPlayed) srt in
         if length validCards > 0 then
           (let nonTwos = filter (\<lambda>c. rank c \<noteq> R2) validCards in
            if length nonTwos > 0 then Inr (Some [nonTwos ! 0])
            else Inr (Some [validCards ! 0]))
         else
           (let dangerousOpponent = dangerous opp;
                isLateGame = length hnd \<le> 5
            in if (dangerousOpponent \<or> isLateGame) \<and> length myBombs > 0
               then Inr (Some (myBombs ! 0))
               else Inr None)))"

definition followPair ::
  "card list \<Rightarrow> card list \<Rightarrow> card list list \<Rightarrow> hand \<Rightarrow> int list option
   \<Rightarrow> js_failure + card list option" where
  "followPair hnd srt myBombs lastPlayed opp =
     (let vps = validPairs srt lastPlayed in
      if length vps > 0 then
        (let bestPair = vps ! 0;
             isPair2 = (rank (bestPair ! 0) = R2);
             dangerousOpponent = dangerous opp;
             amILateGame = length hnd \<le> 5
         in if isPair2 \<and> \<not> dangerousOpponent \<and> \<not> amILateGame then Inr None
            else Inr (Some bestPair))
      else if length myBombs > 0 then Inr (Some (myBombs ! 0))
      else Inr None)"

definition followFive :: "card list list \<Rightarrow> hand \<Rightarrow> js_failure + card list option" where
  "followFive myFives lastPlayed =
     Inr (find (\<lambda>f. case identifyHand f of None \<Rightarrow> False
                    | Some h \<Rightarrow> compareHands h lastPlayed) myFives)"

text \<open>
  \<^verbatim>\<open>getSmartBotPlay(hand, lastPlayed, isFirstTurn?, opponentsHandSizes?, consecutivePasses?,
  nextPlayerHandSize?)\<close>.  An omitted \<^verbatim>\<open>isFirstTurn\<close> is falsy, an omitted size list is
  read as \<^verbatim>\<open>[]\<close>, an omitted \<^verbatim>\<open>nextPlayerHandSize\<close> is not equal to 1; the number of
  passes is not read.  \<open>Inr None\<close> is the source's null (pass).
\<close>

definition getSmartBotPlay ::
  "card list \<Rightarrow> hand option \<Rightarrow> bool \<Rightarrow> int list option \<Rightarrow> int option \<Rightarrow> int option
   \<Rightarrow> js_failure + card list option" where
  "getSmartBotPlay hnd lastPlayed isFirstTurn opp passes nextPlayerHandSize =
     (let srt = sortCards hnd in
      if isFirstTurn then firstTurnPlay srt
      else
        (let myFives = findFiveCardHands srt;
             myBombs = myBombsOf myFives
         in case lastPlayed of
              None \<Rightarrow> leadPlay hnd srt myFives
            | Some lp \<Rightarrow>
                if htype lp = Single
                then followSingle hnd srt myBombs lp opp nextPlayerHandSize
                else if htype lp = PairH then followPair hnd srt myBombs lp opp
                else if htype lp \<in> {Straight, FullHouse, FourOfAKind, StraightFlush, Dragon}
                then followFive myFives lp
                else Inr None))"

section \<open>Basic facts about lists, cards and sorting\<close>

lemma length5E: "length xs = 5 \<Longrightarrow> \<exists>a b c d e. xs = [a, b, c, d, e]"
  by (auto simp: length_Suc_conv numeral_eq_Suc)

lemma nth0_hd: "xs \<noteq> [] \<Longrightarrow> xs ! 0 = hd xs"
  by (cases xs) simp_all

lemma find_exists: "x \<in> set xs \<Longrightarrow> P x \<Longrightarrow> \<exists>y. find P xs = Some y \<and> y \<in> set xs \<and> P y"
  by (induction xs) auto

lemma in_map_filter: "y \<in> set (List.map_filter f xs) \<longleftrightarrow> (\<exists>x \<in> set xs. f x = Some y)"
  by (induction xs) (auto split: option.splits)

lemma RankOrder_inj: "RankOrder r = RankOrder r' \<Longrightarrow> r = r'"
  by (cases r; cases r'; simp)

lemma RankOrder_range: "0 \<le> RankOrder r \<and> RankOrder r \<le> 12 \<and> (r \<noteq> R2 \<longrightarrow> RankOrder r \<le> 11)"
  by (cases r) simp_all

lemma SuitOrder_range: "0 \<le> SuitOrder s \<and> SuitOrder s \<le> 3"
  by (cases s) simp_all

lemma weight_rank_mono:
  "getCardWeight x \<le> getCardWeight y \<Longrightarrow> RankOrder (rank x) \<le> RankOrder (rank y)"
  using SuitOrder_range [of "suit x"] SuitOrder_range [of "suit y"]
  by (simp add: getCardWeight_def)

lemma weight_max: "getCardWeight c \<le> 123"
proof -
  have "RankOrder (rank c) \<le> 12" by (cases "rank c") simp_all
  then show ?thesis using SuitOrder_range [of "suit c"] by (simp add: getCardWeight_def)
qed

lemma length_sortCards [simp]: "length (sortCards cs) = length cs"
  by (simp add: sortCards_def)

lemma mset_sortCards [simp]: "mset (sortCards cs) = mset cs"
  by (simp add: sortCards_def)

lemma set_sortCards [simp]: "set (sortCards cs) = set cs"
  by (simp add: sortCards_def)

lemma sorted_sortCards: "sorted (map getCardWeight (sortCards cs))"
  by (simp add: sortCards_def)

lemma count_sortCards: "length (filter P (sortCards cs)) = length (filter P cs)"
proof -
  have "mset (filter P (sortCards cs)) = mset (filter P cs)"
    by (simp only: mset_filter mset_sortCards)
  then show ?thesis by (metis size_mset)
qed



lemma sorted5:
  assumes "length cs = 5"
  obtains a b c d e where "sortCards cs = [a, b, c, d, e]"
    and "RankOrder (rank a) \<le> RankOrder (rank b)"
    and "RankOrder (rank b) \<le> RankOrder (rank c)"
    and "RankOrder (rank c) \<le> RankOrder (rank d)"
    and "RankOrder (rank d) \<le> RankOrder (rank e)"
proof -
  have "length (sortCards cs) = 5" using assms by simp
  then obtain a b c d e where s: "sortCards cs = [a, b, c, d, e]"
    using length5E by blast
  have "sorted (map getCardWeight [a, b, c, d, e])"
    using sorted_sortCards [of cs] s by simp
  then have "getCardWeight a \<le> getCardWeight b" "getCardWeight b \<le> getCardWeight c"
    "getCardWeight c \<le> getCardWeight d" "getCardWeight d \<le> getCardWeight e"
    by simp_all
  then show ?thesis using s that weight_rank_mono by blast
qed

section \<open>Facts about the classifier\<close>

lemma identifyHand_single:
  "identifyHand [c] = Some \<lparr>cards = [c], htype = Single, strength = getCardWeight c\<rparr>"
  by (simp add: identifyHand_def sortCards_def)

lemma identifyHand_five: "length cs = 5 \<Longrightarrow> identifyHand cs = identifyFive (sortCards cs)"
  by (simp add: identifyHand_def)

lemma identifyHand_wrong_count:
  "length cs \<noteq> 1 \<Longrightarrow> length cs \<noteq> 2 \<Longrightarrow> length cs \<noteq> 5 \<Longrightarrow> length cs \<noteq> 13
   \<Longrightarrow> identifyHand cs = None"
  by (simp add: identifyHand_def)

lemma identifyHand_pair:
  "identifyHand [a, b] = Some h \<Longrightarrow> htype h = PairH"
  by (auto simp: identifyHand_def Let_def split: if_splits)



lemma special_distinct:
  assumes "length s = 5" and "isA2345 s \<or> is23456 s"
  shows "distinct (map rank s)"
proof -
  have "\<exists>A. A \<subseteq> set (map rank s) \<and> card A = 5"
  proof (cases "isA2345 s")
    case True
    then have "{RA, R2, R3, R4, R5} \<subseteq> set (map rank s)"
      by (simp add: isA2345_def hasRank_def)
    moreover have "card {RA, R2, R3, R4, R5} = 5" by simp
    ultimately show ?thesis by blast
  next
    case False
    with assms(2) have "{R2, R3, R4, R5, R6} \<subseteq> set (map rank s)"
      by (simp add: is23456_def hasRank_def)
    moreover have "card {R2, R3, R4, R5, R6} = 5" by simp
    ultimately show ?thesis by blast
  qed
  then obtain A where A: "A \<subseteq> set (map rank s)" "card A = 5" by blast
  have "card A \<le> card (set (map rank s))"
    using A(1) by (intro card_mono) simp_all
  moreover have "card (set (map rank s)) \<le> length (map rank s)" by (rule card_length)
  ultimately have "card (set (map rank s)) = length (map rank s)"
    using A(2) assms(1) by simp
  then show ?thesis by (rule card_distinct)
qed

lemma standard_distinct:
  assumes "isStandardStraight (map (\<lambda>c. RankOrder (rank c)) [a, b, c, d, e])"
  shows "distinct (map rank [a, b, c, d, e])"
proof -
  define n where "n = RankOrder (rank a)"
  have "map RankOrder (map rank [a, b, c, d, e]) = [n, n + 1, n + 2, n + 3, n + 4]"
    using assms by (simp add: isStandardStraight_def n_def)
  then have "distinct (map RankOrder (map rank [a, b, c, d, e]))"
    by (simp only: ) simp
  then show ?thesis by (simp only: distinct_map)
qed

lemma straight_distinct:
  assumes "isStandardStraight (map (\<lambda>c. RankOrder (rank c)) [a, b, c, d, e])
           \<or> isA2345 [a, b, c, d, e] \<or> is23456 [a, b, c, d, e]"
  shows "distinct (map rank [a, b, c, d, e])"
  using assms standard_distinct [of a b c d e] special_distinct [of "[a, b, c, d, e]"]
  by fastforce

lemma identifyFive_not_straight:
  assumes "\<not> distinct (map rank [a, b, c, d, e])"
  shows "identifyFive [a, b, c, d, e] =
     (if rank a = rank d \<or> rank b = rank e
      then Some \<lparr>cards = [a, b, c, d, e], htype = FourOfAKind, strength = RankOrder (rank c)\<rparr>
      else if (rank a = rank c \<and> rank d = rank e) \<or> (rank a = rank b \<and> rank c = rank e)
      then Some \<lparr>cards = [a, b, c, d, e], htype = FullHouse, strength = RankOrder (rank c)\<rparr>
      else None)"
proof -
  have "\<not> (isStandardStraight (map (\<lambda>c. RankOrder (rank c)) [a, b, c, d, e])
           \<or> isA2345 [a, b, c, d, e] \<or> is23456 [a, b, c, d, e])"
    using assms straight_distinct by blast
  then show ?thesis
    by (simp add: identifyFive_def)
qed

lemma identifyFive_type:
  assumes "identifyFive s = Some h"
  shows "cards h = s
         \<and> (htype h = Straight \<or> htype h = StraightFlush \<or> htype h = FourOfAKind
            \<or> htype h = FullHouse)"
proof (cases "isStandardStraight (map (\<lambda>c. RankOrder (rank c)) s) \<or> isA2345 s \<or> is23456 s")
  case True
  then show ?thesis using assms
    by (auto simp: identifyFive_def Let_def split: prod.splits option.splits if_splits)
next
  case False
  then show ?thesis using assms
    by (auto simp: identifyFive_def Let_def split: if_splits)
qed

lemma identifyHand_shape:
  assumes "identifyHand cs = Some h"
  shows "length (cards h) = length cs
         \<and> ((htype h = Single \<and> length cs = 1) \<or> (htype h = PairH \<and> length cs = 2)
            \<or> (htype h = Dragon \<and> length cs = 13)
            \<or> ((htype h = Straight \<or> htype h = StraightFlush \<or> htype h = FourOfAKind
                 \<or> htype h = FullHouse) \<and> length cs = 5))"
proof -
  consider "length cs = 1" | "length cs = 2" | "length cs = 13" | "length cs = 5"
    | "length cs \<noteq> 1 \<and> length cs \<noteq> 2 \<and> length cs \<noteq> 5 \<and> length cs \<noteq> 13"
    by blast
  then show ?thesis
  proof cases
    case 1
    then show ?thesis using assms by (auto simp: identifyHand_def Let_def)
  next
    case 2
    then show ?thesis using assms by (auto simp: identifyHand_def Let_def split: if_splits)
  next
    case 3
    then show ?thesis using assms by (auto simp: identifyHand_def Let_def split: if_splits)
  next
    case 4
    then have "identifyFive (sortCards cs) = Some h" using assms by (simp add: identifyHand_five)
    from identifyFive_type [OF this] show ?thesis using 4 by auto
  next
    case 5
    then show ?thesis using assms identifyHand_wrong_count [of cs] by simp
  qed
qed

lemma rankingCard_found:
  assumes "length s = 5"
    and "isStandardStraight (map (\<lambda>c. RankOrder (rank c)) s) \<or> isA2345 s \<or> is23456 s"
  shows "\<exists>rc. find (\<lambda>c. rank c = snd (sequenceRank s)) s = Some rc \<and> rc \<in> set s
              \<and> rank rc = snd (sequenceRank s)"
proof -
  have "\<exists>c \<in> set s. rank c = snd (sequenceRank s)"
  proof (cases "is23456 s")
    case True
    then have "R6 \<in> rank ` set s" by (simp add: is23456_def hasRank_def)
    then obtain c where "c \<in> set s" "rank c = R6" by (metis imageE)
    moreover have "snd (sequenceRank s) = R6" using True by (simp add: sequenceRank_def)
    ultimately show ?thesis by metis
  next
    case n6: False
    show ?thesis
    proof (cases "isA2345 s")
      case True
      then have "R5 \<in> rank ` set s" by (simp add: isA2345_def hasRank_def)
      then obtain c where "c \<in> set s" "rank c = R5" by (metis imageE)
      moreover have "snd (sequenceRank s) = R5" using True n6 by (simp add: sequenceRank_def)
      ultimately show ?thesis by metis
    next
      case False
      have "s ! 4 \<in> set s" using assms(1) by simp
      moreover have "snd (sequenceRank s) = rank (s ! 4)"
        using n6 False by (simp add: sequenceRank_def)
      ultimately show ?thesis by metis
    qed
  qed
  then obtain c where c: "c \<in> set s" "rank c = snd (sequenceRank s)" ..
  show ?thesis
    using find_exists [of c s "\<lambda>c. rank c = snd (sequenceRank s)", OF c] .
qed

lemma identifyFive_straight:
  assumes "isStandardStraight (map (\<lambda>c. RankOrder (rank c)) s) \<or> isA2345 s \<or> is23456 s"
    and "find (\<lambda>c. rank c = snd (sequenceRank s)) s = Some rc"
  shows "identifyFive s =
     Some \<lparr>cards = s,
            htype = (if list_all (\<lambda>c. suit c = suit (s ! 0)) s then StraightFlush else Straight),
            strength = fst (sequenceRank s) * 10 + SuitOrder (suit rc)\<rparr>"
  using assms by (cases "sequenceRank s") (simp add: identifyFive_def Let_def)

lemma straight_condition:
  assumes "identifyFive s = Some h" and "htype h = Straight \<or> htype h = StraightFlush"
  shows "isStandardStraight (map (\<lambda>c. RankOrder (rank c)) s) \<or> isA2345 s \<or> is23456 s"
proof (rule ccontr)
  assume "\<not> ?thesis"
  then have "htype h = FourOfAKind \<or> htype h = FullHouse"
    using assms(1) by (auto simp: identifyFive_def Let_def split: if_splits)
  then show False using assms(2) by auto
qed

section \<open>Strength of straights\<close>

text \<open>
  The strength of every hand classified Straight or StraightFlush is
  sequenceRank * 10 + suit order of the ranking card, the pair (sequenceRank, ranking rank)
  being that of \<open>sequenceRank\<close>: (10, 6) for 2-3-4-5-6, (1, 5) for A-2-3-4-5, and
  (rank order of the top sorted card - 2, its rank) otherwise.
\<close>

lemma straight_strength:
  assumes "identifyHand cs = Some h" and "htype h = Straight \<or> htype h = StraightFlush"
  shows "\<exists>rc \<in> set cs. rank rc = snd (sequenceRank (sortCards cs))
           \<and> strength h = fst (sequenceRank (sortCards cs)) * 10 + SuitOrder (suit rc)"
proof -
  have len: "length cs = 5" using identifyHand_shape [OF assms(1)] assms(2) by auto
  then have five: "identifyFive (sortCards cs) = Some h" using assms(1) by (simp add: identifyHand_five)
  have cond: "isStandardStraight (map (\<lambda>c. RankOrder (rank c)) (sortCards cs))
      \<or> isA2345 (sortCards cs) \<or> is23456 (sortCards cs)"
    using straight_condition [OF five assms(2)] .
  obtain rc where rc: "find (\<lambda>c. rank c = snd (sequenceRank (sortCards cs))) (sortCards cs) = Some rc"
    "rc \<in> set (sortCards cs)" "rank rc = snd (sequenceRank (sortCards cs))"
    using rankingCard_found [OF _ cond] len by auto
  have "strength h = fst (sequenceRank (sortCards cs)) * 10 + SuitOrder (suit rc)"
    using identifyFive_straight [OF cond rc(1)] five by auto
  then show ?thesis using rc(2,3) by auto
qed

text \<open>
  What holds of the order of straights: an A-2-3-4-5 straight (strength 10..13) is below
  every other straight (at least 20), and a 2-3-4-5-6 straight (100..103) is above every
  standard straight whose top card is not a 2, that is, above 3-4-5-6-7 up to 10-J-Q-K-A
  (at most 93).  The standard straight J-Q-K-A-2 is not covered: its top card is a 2 and
  its sequence rank is 10 as well.
\<close>

lemma straight_strength_bounds:
  assumes "identifyHand cs = Some h" and "htype h = Straight \<or> htype h = StraightFlush"
  shows "(is23456 (sortCards cs) \<longrightarrow> 100 \<le> strength h \<and> strength h \<le> 103)
       \<and> (isA2345 (sortCards cs) \<and> \<not> is23456 (sortCards cs) \<longrightarrow> 10 \<le> strength h \<and> strength h \<le> 13)
       \<and> (\<not> isA2345 (sortCards cs) \<and> \<not> is23456 (sortCards cs) \<longrightarrow>
            20 \<le> strength h \<and> (rank (sortCards cs ! 4) \<noteq> R2 \<longrightarrow> strength h \<le> 93))"
proof -
  let ?s = "sortCards cs"
  from straight_strength [OF assms] obtain rc where "rc \<in> set cs"
    and rc0: "rank rc = snd (sequenceRank ?s)
              \<and> strength h = fst (sequenceRank ?s) * 10 + SuitOrder (suit rc)" ..
  then have rc: "strength h = fst (sequenceRank ?s) * 10 + SuitOrder (suit rc)" by simp
  note su = SuitOrder_range [of "suit rc"]
  have len: "length cs = 5" using identifyHand_shape [OF assms(1)] assms(2) by auto
  then have five: "identifyFive ?s = Some h" using assms(1) by (simp add: identifyHand_five)
  have std: "4 \<le> RankOrder (rank (?s ! 4))" if "\<not> isA2345 ?s" "\<not> is23456 ?s"
  proof -
    have st: "isStandardStraight (map (\<lambda>c. RankOrder (rank c)) ?s)"
      using straight_condition [OF five assms(2)] that by blast
    obtain a b c d e where s: "?s = [a, b, c, d, e]" using sorted5 [OF len] by metis
    have "RankOrder (rank e) = RankOrder (rank a) + 4"
      using st unfolding s by (simp add: isStandardStraight_def)
    then show ?thesis using RankOrder_range [of "rank a"] s by simp
  qed
  show ?thesis
  proof (intro conjI impI)
    assume "is23456 ?s"
    then show "100 \<le> strength h" "strength h \<le> 103"
      using rc su by (simp_all add: sequenceRank_def)
  next
    assume "isA2345 ?s \<and> \<not> is23456 ?s"
    then show "10 \<le> strength h" "strength h \<le> 13"
      using rc su by (simp_all add: sequenceRank_def)
  next
    assume a: "\<not> isA2345 ?s \<and> \<not> is23456 ?s"
    then show "20 \<le> strength h" using rc su std by (simp add: sequenceRank_def)
    assume "rank (?s ! 4) \<noteq> R2"
    then show "strength h \<le> 93"
      using a rc su RankOrder_range [of "rank (?s ! 4)"] by (simp add: sequenceRank_def)
  qed
qed

text \<open>
  Claim C3.  The strength of a straight is sequenceRank * 10 + suit order of the ranking
  card (lemma \<open>straight_strength\<close>), and an A-2-3-4-5 straight is the weakest
  (lemma \<open>straight_strength_bounds\<close>); but a 2-3-4-5-6 straight is not stronger than
  every standard straight.  The classifier takes J-Q-K-A-2, whose rank orders 8..12 are
  consecutive, as a standard straight of sequence rank 12 - 2 = 10, the rank of 2-3-4-5-6:
  with the 2 of Spades it has strength 103 and beats the 2-3-4-5-6 straight whose 6 is a
  Club, of strength 100.
\<close>

theorem C3_jqka2_reaches_top_sequence_rank:
  "identifyHand [mkCard RJ Clubs, mkCard RQ Diamonds, mkCard RK Hearts, mkCard RA Spades, mkCard R2 Spades]
     = Some \<lparr>cards = [mkCard RJ Clubs, mkCard RQ Diamonds, mkCard RK Hearts, mkCard RA Spades,
                       mkCard R2 Spades],
             htype = Straight, strength = 103\<rparr>
   \<and> identifyHand [mkCard R2 Clubs, mkCard R3 Clubs, mkCard R4 Diamonds, mkCard R5 Clubs, mkCard R6 Clubs]
     = Some \<lparr>cards = [mkCard R3 Clubs, mkCard R4 Diamonds, mkCard R5 Clubs, mkCard R6 Clubs,
                       mkCard R2 Clubs],
             htype = Straight, strength = 100\<rparr>
   \<and> compareHands
        \<lparr>cards = [mkCard RJ Clubs, mkCard RQ Diamonds, mkCard RK Hearts, mkCard RA Spades,
                  mkCard R2 Spades],
         htype = Straight, strength = 103\<rparr>
        \<lparr>cards = [mkCard R3 Clubs, mkCard R4 Diamonds, mkCard R5 Clubs, mkCard R6 Clubs,
                  mkCard R2 Clubs],
         htype = Straight, strength = 100\<rparr>"
  by code_simp

section \<open>Four of a kind and full house\<close>

lemma four_sorted:
  assumes "RankOrder (rank a) \<le> RankOrder (rank b)"
    and "RankOrder (rank b) \<le> RankOrder (rank c)"
    and "RankOrder (rank c) \<le> RankOrder (rank d)"
    and "RankOrder (rank d) \<le> RankOrder (rank e)"
    and "length (filter (\<lambda>x. rank x = q) [a, b, c, d, e]) = 4"
  shows "(rank a = q \<and> rank b = q \<and> rank c = q \<and> rank d = q \<and> rank e \<noteq> q)
       \<or> (rank a \<noteq> q \<and> rank b = q \<and> rank c = q \<and> rank d = q \<and> rank e = q)"
  using assms by (auto split: if_splits dest: RankOrder_inj)

lemma identifyFive_four:
  assumes "(rank a = q \<and> rank b = q \<and> rank c = q \<and> rank d = q \<and> rank e \<noteq> q)
       \<or> (rank a \<noteq> q \<and> rank b = q \<and> rank c = q \<and> rank d = q \<and> rank e = q)"
  shows "identifyFive [a, b, c, d, e] =
     Some \<lparr>cards = [a, b, c, d, e], htype = FourOfAKind, strength = RankOrder q\<rparr>"
proof -
  have eq: "rank b = q" "rank c = q" using assms by blast+
  have nd: "\<not> distinct (map rank [a, b, c, d, e])" using eq by simp
  have quad: "rank a = rank d \<or> rank b = rank e" using assms by metis
  show ?thesis
    unfolding identifyFive_not_straight [OF nd] using quad eq(2) by simp
qed

lemma full_sorted:
  assumes "RankOrder (rank a) \<le> RankOrder (rank b)"
    and "RankOrder (rank b) \<le> RankOrder (rank c)"
    and "RankOrder (rank c) \<le> RankOrder (rank d)"
    and "RankOrder (rank d) \<le> RankOrder (rank e)"
    and "length (filter (\<lambda>x. rank x = t) [a, b, c, d, e]) = 3"
    and "length (filter (\<lambda>x. rank x = p) [a, b, c, d, e]) = 2"
    and "t \<noteq> p"
  shows "(rank a = t \<and> rank b = t \<and> rank c = t \<and> rank d = p \<and> rank e = p)
       \<or> (rank a = p \<and> rank b = p \<and> rank c = t \<and> rank d = t \<and> rank e = t)"
proof -
  have all: "\<forall>x \<in> set [a, b, c, d, e]. rank x = t \<or> rank x = p"
  proof (rule ccontr)
    assume "\<not> ?thesis"
    then obtain x where x: "x \<in> set [a, b, c, d, e]" "rank x \<noteq> t" "rank x \<noteq> p" by blast
    let ?xs = "[a, b, c, d, e]"
    have "length (filter (\<lambda>x. rank x = t \<or> rank x = p) ?xs) < length ?xs"
      using x by (intro length_filter_less) auto
    moreover have "length (filter (\<lambda>x. rank x = t \<or> rank x = p) ?xs)
        = length (filter (\<lambda>x. rank x = t) ?xs) + length (filter (\<lambda>x. rank x = p) ?xs)"
      using \<open>t \<noteq> p\<close> by (induction ?xs) auto
    ultimately show False using assms(5,6) by simp
  qed
  show ?thesis
  proof (cases "RankOrder t \<le> RankOrder p")
    case True
    moreover have "RankOrder t \<noteq> RankOrder p" using \<open>t \<noteq> p\<close> RankOrder_inj by blast
    ultimately have lt: "RankOrder t < RankOrder p" by linarith
    show ?thesis using all assms lt by (auto split: if_splits)
  next
    case False
    then have lt: "RankOrder p < RankOrder t" by simp
    show ?thesis using all assms lt by (auto split: if_splits)
  qed
qed

lemma identifyFive_full:
  assumes "(rank a = t \<and> rank b = t \<and> rank c = t \<and> rank d = p \<and> rank e = p)
       \<or> (rank a = p \<and> rank b = p \<and> rank c = t \<and> rank d = t \<and> rank e = t)"
    and "t \<noteq> p"
  shows "identifyFive [a, b, c, d, e] =
     Some \<lparr>cards = [a, b, c, d, e], htype = FullHouse, strength = RankOrder t\<rparr>"
proof -
  have eq: "rank c = t" using assms by blast
  have nd: "\<not> distinct (map rank [a, b, c, d, e])" using assms(1) by auto
  have nq: "\<not> (rank a = rank d \<or> rank b = rank e)" using assms by metis
  have fh: "(rank a = rank c \<and> rank d = rank e) \<or> (rank a = rank b \<and> rank c = rank e)"
    using assms(1) by metis
  show ?thesis
    unfolding identifyFive_not_straight [OF nd] using nq fh eq by simp
qed

text \<open>
  Claim C4.  Five cards of which four have one rank (the fifth then has another) are
  classified FourOfAKind with strength the rank order of the quad's rank; five cards made
  of three of one rank and two of another are classified FullHouse with strength the rank
  order of the triple's rank.  Neither result depends on the other rank or on any suit.
\<close>

theorem C4_quad_and_full_house:
  "(length cs = 5 \<and> length (filter (\<lambda>c. rank c = q) cs) = 4
      \<longrightarrow> (\<exists>h. identifyHand cs = Some h \<and> htype h = FourOfAKind \<and> strength h = RankOrder q))
   \<and> (length cs = 5 \<and> length (filter (\<lambda>c. rank c = t) cs) = 3
        \<and> length (filter (\<lambda>c. rank c = p) cs) = 2 \<and> t \<noteq> p
      \<longrightarrow> (\<exists>h. identifyHand cs = Some h \<and> htype h = FullHouse \<and> strength h = RankOrder t))"
proof (intro conjI impI)
  assume A: "length cs = 5 \<and> length (filter (\<lambda>c. rank c = q) cs) = 4"
  then obtain a b c d e where s: "sortCards cs = [a, b, c, d, e]"
    and m: "RankOrder (rank a) \<le> RankOrder (rank b)" "RankOrder (rank b) \<le> RankOrder (rank c)"
      "RankOrder (rank c) \<le> RankOrder (rank d)" "RankOrder (rank d) \<le> RankOrder (rank e)"
    using sorted5 [of cs] by metis
  have "length (filter (\<lambda>c. rank c = q) [a, b, c, d, e]) = 4"
    using A count_sortCards [of "\<lambda>c. rank c = q" cs] s by simp
  from four_sorted [OF m this] identifyFive_four [of a q b c d e]
  have "identifyFive [a, b, c, d, e] =
     Some \<lparr>cards = [a, b, c, d, e], htype = FourOfAKind, strength = RankOrder q\<rparr>"
    by blast
  then show "\<exists>h. identifyHand cs = Some h \<and> htype h = FourOfAKind \<and> strength h = RankOrder q"
    using A s by (simp add: identifyHand_five)
next
  assume A: "length cs = 5 \<and> length (filter (\<lambda>c. rank c = t) cs) = 3
        \<and> length (filter (\<lambda>c. rank c = p) cs) = 2 \<and> t \<noteq> p"
  then obtain a b c d e where s: "sortCards cs = [a, b, c, d, e]"
    and m: "RankOrder (rank a) \<le> RankOrder (rank b)" "RankOrder (rank b) \<le> RankOrder (rank c)"
      "RankOrder (rank c) \<le> RankOrder (rank d)" "RankOrder (rank d) \<le> RankOrder (rank e)"
    using sorted5 [of cs] by metis
  have c3: "length (filter (\<lambda>c. rank c = t) [a, b, c, d, e]) = 3"
    using A count_sortCards [of "\<lambda>c. rank c = t" cs] s by simp
  have c2: "length (filter (\<lambda>c. rank c = p) [a, b, c, d, e]) = 2"
    using A count_sortCards [of "\<lambda>c. rank c = p" cs] s by simp
  have ne: "t \<noteq> p" using A by simp
  from full_sorted [OF m c3 c2 ne] identifyFive_full [of a t b c d p e] ne
  have "identifyFive [a, b, c, d, e] =
     Some \<lparr>cards = [a, b, c, d, e], htype = FullHouse, strength = RankOrder t\<rparr>"
    by blast
  then show "\<exists>h. identifyHand cs = Some h \<and> htype h = FullHouse \<and> strength h = RankOrder t"
    using A s by (simp add: identifyHand_five)
qed

theorem C4_quad_and_full_house_witness:
  "length [mkCard R9 Hearts, mkCard R4 Clubs, mkCard R9 Clubs, mkCard R9 Spades, mkCard R9 Diamonds] = 5
   \<and> length (filter (\<lambda>c. rank c = R9)
        [mkCard R9 Hearts, mkCard R4 Clubs, mkCard R9 Clubs, mkCard R9 Spades, mkCard R9 Diamonds]) = 4
   \<and> (\<exists>h. identifyHand [mkCard R9 Hearts, mkCard R4 Clubs, mkCard R9 Clubs, mkCard R9 Spades,
                         mkCard R9 Diamonds] = Some h
          \<and> htype h = FourOfAKind \<and> strength h = 6)
   \<and> length [mkCard R2 Hearts, mkCard R5 Clubs, mkCard R5 Spades, mkCard R2 Spades, mkCard R5 Hearts] = 5
   \<and> length (filter (\<lambda>c. rank c = R5)
        [mkCard R2 Hearts, mkCard R5 Clubs, mkCard R5 Spades, mkCard R2 Spades, mkCard R5 Hearts]) = 3
   \<and> length (filter (\<lambda>c. rank c = R2)
        [mkCard R2 Hearts, mkCard R5 Clubs, mkCard R5 Spades, mkCard R2 Spades, mkCard R5 Hearts]) = 2
   \<and> R5 \<noteq> R2
   \<and> (\<exists>h. identifyHand [mkCard R2 Hearts, mkCard R5 Clubs, mkCard R5 Spades, mkCard R2 Spades,
                         mkCard R5 Hearts] = Some h
          \<and> htype h = FullHouse \<and> strength h = 2)"
  using C4_quad_and_full_house
          [of "[mkCard R9 Hearts, mkCard R4 Clubs, mkCard R9 Clubs, mkCard R9 Spades, mkCard R9 Diamonds]"
              R9 R3 R4]
        C4_quad_and_full_house
          [of "[mkCard R2 Hearts, mkCard R5 Clubs, mkCard R5 Spades, mkCard R2 Spades, mkCard R5 Hearts]"
              R3 R5 R2]
  by (simp add: mkCard_def)

section \<open>Groups with a duplicate card\<close>







section \<open>Properties of the comparator\<close>

text \<open>
  Claim C1.  A candidate of type FourOfAKind or StraightFlush beats every reference whose
  type is neither, whatever the strengths, card counts and reference type; when both types
  are among FourOfAKind and StraightFlush, the candidate beats the reference exactly when
  its type rank (FourOfAKind 4, StraightFlush 5) is strictly greater, or the type ranks are
  equal and its strength is strictly greater.
\<close>

theorem C1_bomb_override:
  "(isBomb c \<and> \<not> isBomb r \<longrightarrow> compareHands c r)
   \<and> (isBomb c \<and> isBomb r \<longrightarrow>
        compareHands c r =
          (HandTypeOrder (htype c) > HandTypeOrder (htype r)
           \<or> (HandTypeOrder (htype c) = HandTypeOrder (htype r) \<and> strength c > strength r)))
   \<and> HandTypeOrder FourOfAKind = 4 \<and> HandTypeOrder StraightFlush = 5
   \<and> isBomb c = (htype c = FourOfAKind \<or> htype c = StraightFlush)"
  by (auto simp: compareHands_def isBomb_def)

theorem C1_bomb_override_witness:
  "isBomb \<lparr>cards = [], htype = FourOfAKind, strength = 0\<rparr>
   \<and> \<not> isBomb \<lparr>cards = [mkCard R2 Spades], htype = Single, strength = 123\<rparr>
   \<and> compareHands \<lparr>cards = [], htype = FourOfAKind, strength = 0\<rparr>
                   \<lparr>cards = [mkCard R2 Spades], htype = Single, strength = 123\<rparr>
   \<and> isBomb \<lparr>cards = [], htype = StraightFlush, strength = 20\<rparr>
   \<and> isBomb \<lparr>cards = [], htype = FourOfAKind, strength = 12\<rparr>
   \<and> compareHands \<lparr>cards = [], htype = StraightFlush, strength = 20\<rparr>
                   \<lparr>cards = [], htype = FourOfAKind, strength = 12\<rparr>"
  using C1_bomb_override [of "\<lparr>cards = [], htype = FourOfAKind, strength = 0\<rparr>"
                             "\<lparr>cards = [mkCard R2 Spades], htype = Single, strength = 123\<rparr>"]
        C1_bomb_override [of "\<lparr>cards = [], htype = StraightFlush, strength = 20\<rparr>"
                             "\<lparr>cards = [], htype = FourOfAKind, strength = 12\<rparr>"]
  by (simp add: isBomb_def)

text \<open>
  Claim C2.  A candidate whose type is neither FourOfAKind nor StraightFlush beats a
  reference exactly when both hold the same number of cards, have the same type, and the
  candidate's strength is strictly greater; in particular a Straight never beats a
  FullHouse, whatever the strengths.
\<close>

theorem C2_non_bomb_comparison:
  "(htype c \<noteq> FourOfAKind \<and> htype c \<noteq> StraightFlush \<longrightarrow>
      compareHands c r =
        (length (cards c) = length (cards r) \<and> htype c = htype r \<and> strength c > strength r))
   \<and> (htype c = Straight \<and> htype r = FullHouse \<longrightarrow> \<not> compareHands c r)"
  by (auto simp: compareHands_def isBomb_def)

theorem C2_non_bomb_comparison_witness:
  "htype \<lparr>cards = [mkCard R5 Hearts], htype = Single, strength = 22\<rparr> \<noteq> FourOfAKind
   \<and> htype \<lparr>cards = [mkCard R5 Hearts], htype = Single, strength = 22\<rparr> \<noteq> StraightFlush
   \<and> compareHands \<lparr>cards = [mkCard R5 Hearts], htype = Single, strength = 22\<rparr>
                   \<lparr>cards = [mkCard R4 Clubs], htype = Single, strength = 10\<rparr>
   \<and> htype \<lparr>cards = [], htype = Straight, strength = 103\<rparr> = Straight
   \<and> htype \<lparr>cards = [], htype = FullHouse, strength = 0\<rparr> = FullHouse
   \<and> \<not> compareHands \<lparr>cards = [], htype = Straight, strength = 103\<rparr>
                     \<lparr>cards = [], htype = FullHouse, strength = 0\<rparr>"
  using C2_non_bomb_comparison [of "\<lparr>cards = [mkCard R5 Hearts], htype = Single, strength = 22\<rparr>"
                                   "\<lparr>cards = [mkCard R4 Clubs], htype = Single, strength = 10\<rparr>"]
        C2_non_bomb_comparison [of "\<lparr>cards = [], htype = Straight, strength = 103\<rparr>"
                                   "\<lparr>cards = [], htype = FullHouse, strength = 0\<rparr>"]
  by simp

text \<open>
  Claim C10.  The beats relation is irreflexive and asymmetric: no hand beats itself, and
  two hands never beat each other.
\<close>

theorem C10_irreflexive_asymmetric:
  "\<not> compareHands h h \<and> \<not> (compareHands a b \<and> compareHands b a)"
  by (auto simp: compareHands_def isBomb_def split: if_splits)

lemma canBeat_compareHands:
  assumes "identifyHand cs = Some h" and "identifyHand rc = Some r" and "canBeat h r"
  shows "compareHands h r"
  using identifyHand_shape [OF assms(1)] identifyHand_shape [OF assms(2)] assms(3)
  by (auto simp: canBeat_def compareHands_def isBomb_def split: if_splits)

section \<open>Facts about the enumerator\<close>

lemma set_sortByPriority [simp]: "set (sortByPriority xs) = set xs"
  by (simp add: sortByPriority_def)

lemma getAllPairs_length: "p \<in> set (getAllPairs cs) \<Longrightarrow> \<exists>a b. p = [a, b] \<and> rank a = rank b"
  by (induction cs rule: getAllPairs.induct) (auto split: if_splits)

lemma fourOfAKindOf_sound:
  assumes "fourOfAKindOf quad kicker = Some m"
  shows "identifyHand (c_cards m) = Some (c_hand m) \<and> htype (c_hand m) = FourOfAKind
         \<and> category m = Bomb \<and> c_cards m = quad @ [kicker] \<and> rank kicker \<noteq> rank (quad ! 0)"
  using assms by (auto simp: fourOfAKindOf_def Let_def split: if_splits option.splits)

lemma fourOfAKindCombos_sound:
  assumes "m \<in> set (fourOfAKindCombos cs)"
  shows "\<exists>quad kicker. fourOfAKindOf quad kicker = Some m \<and> quad \<in> set (byRank cs)
           \<and> length quad = 4 \<and> kicker \<in> set cs"
  using assms by (auto simp: fourOfAKindCombos_def in_map_filter)

lemma fullHouseOf_sound:
  assumes "fullHouseOf t p = Some m"
  shows "identifyHand (c_cards m) = Some (c_hand m) \<and> htype (c_hand m) = FullHouse
         \<and> category m = Five \<and> c_cards m = take 3 t @ take 2 p \<and> rank (t ! 0) \<noteq> rank (p ! 0)"
  using assms by (auto simp: fullHouseOf_def Let_def split: if_splits option.splits)

lemma fullHouseCombos_sound:
  assumes "m \<in> set (fullHouseCombos cs)"
  shows "\<exists>t p. fullHouseOf t p = Some m \<and> t \<in> set (byRank cs) \<and> p \<in> set (byRank cs)
           \<and> 3 \<le> length t \<and> 2 \<le> length p"
  using assms by (auto simp: fullHouseCombos_def Let_def in_map_filter)

lemma straightOf_sound:
  assumes "straightOf s = Some m"
  shows "identifyHand (c_cards m) = Some (c_hand m)
         \<and> (category m = Bomb \<longleftrightarrow> htype (c_hand m) = StraightFlush) \<and> c_cards m = s"
  using assms by (auto simp: straightOf_def split: option.splits if_splits)

lemma straightCombos_sound:
  assumes "m \<in> set (straightCombos cs)"
  shows "\<exists>s. straightOf s = Some m \<and> s \<in> set (findAllStraights cs)"
  using assms by (auto simp: straightCombos_def in_map_filter)

lemma findAllFiveCardHands_cases:
  "m \<in> set (findAllFiveCardHands cs) \<longleftrightarrow>
     m \<in> set (fourOfAKindCombos cs) \<or> m \<in> set (fullHouseCombos cs) \<or> m \<in> set (straightCombos cs)"
  by (auto simp: findAllFiveCardHands_def)

lemma five_combo_identified:
  assumes "m \<in> set (findAllFiveCardHands cs)"
  shows "identifyHand (c_cards m) = Some (c_hand m)"
  using assms fourOfAKindCombos_sound [of m cs] fullHouseCombos_sound [of m cs]
    straightCombos_sound [of m cs] fourOfAKindOf_sound fullHouseOf_sound straightOf_sound
  unfolding findAllFiveCardHands_cases by blast

lemma five_combo_category:
  assumes "m \<in> set (findAllFiveCardHands cs)"
    and "htype (c_hand m) \<noteq> FourOfAKind" and "htype (c_hand m) \<noteq> StraightFlush"
  shows "category m \<noteq> Bomb"
proof -
  from assms(1) consider "m \<in> set (fourOfAKindCombos cs)"
    | "m \<in> set (fullHouseCombos cs)" | "m \<in> set (straightCombos cs)"
    using findAllFiveCardHands_cases by blast
  then show ?thesis
  proof cases
    case 1
    then show ?thesis using fourOfAKindCombos_sound [of m cs] fourOfAKindOf_sound assms(2) by blast
  next
    case 2
    then obtain t p where "fullHouseOf t p = Some m" using fullHouseCombos_sound by blast
    then show ?thesis using fullHouseOf_sound [of t p m] by simp
  next
    case 3
    then obtain s where "straightOf s = Some m" using straightCombos_sound by blast
    then show ?thesis using straightOf_sound [of s m] assms(3) by simp
  qed
qed

lemma findAllPairs_sound:
  assumes "m \<in> set (findAllPairs cs)"
  shows "identifyHand (c_cards m) = Some (c_hand m) \<and> htype (c_hand m) = PairH
         \<and> category m = PairC \<and> c_cards m \<in> set (getAllPairs cs)"
proof -
  from assms obtain p h where p: "p \<in> set (getAllPairs cs)" "identifyHand p = Some h"
    and m: "m = \<lparr>c_cards = p, c_hand = h, priority = strength h, category = PairC\<rparr>"
    by (auto simp: findAllPairs_def pairOf_def in_map_filter split: option.splits)
  from p(1) obtain a b where "p = [a, b]" using getAllPairs_length by blast
  with p(2) have "htype h = PairH" using identifyHand_pair by blast
  with p m show ?thesis by simp
qed

lemma singleMove_sound:
  "identifyHand (c_cards (singleMove c)) = Some (c_hand (singleMove c))
   \<and> htype (c_hand (singleMove c)) = Single \<and> category (singleMove c) = SingleC
   \<and> c_cards (singleMove c) = [c] \<and> strength (c_hand (singleMove c)) = getCardWeight c"
  by (simp add: singleMove_def identifyHand_single)

lemma evaluateHand_fields:
  "bombs (evaluateHand cs) =
     filter (\<lambda>c. htype (c_hand c) = FourOfAKind \<or> htype (c_hand c) = StraightFlush)
            (findAllFiveCardHands (sortCards cs))"
  "fiveCards (evaluateHand cs) =
     filter (\<lambda>c. htype (c_hand c) \<noteq> FourOfAKind \<and> htype (c_hand c) \<noteq> StraightFlush)
            (findAllFiveCardHands (sortCards cs))"
  "pairs (evaluateHand cs) = findAllPairs (sortCards cs)"
  "singles (evaluateHand cs) =
     filter (\<lambda>c. card_id c \<notin> set (usedIds (bombs (evaluateHand cs) @ fiveCards (evaluateHand cs)
                                               @ pairs (evaluateHand cs))))
            (sortCards cs)"
  by (simp_all add: evaluateHand_def Let_def)

section \<open>Every enumerated combination is drawn from the hand\<close>

lemma distinct_subset_mset:
  assumes "distinct xs" and "set xs \<subseteq> set ys"
  shows "mset xs \<subseteq># mset ys"
proof (rule mset_subset_eqI)
  fix a
  show "count (mset xs) a \<le> count (mset ys) a"
  proof (cases "a \<in> set xs")
    case True
    have "count (mset xs) a = 1"
      using True assms(1) distinct_count_atmost_1 [of xs] by simp
    moreover have "a \<in> set ys" using True assms(2) by blast
    then have "1 \<le> count (mset ys) a" by simp
    ultimately show ?thesis by linarith
  next
    case False
    then have "count (mset xs) a = 0" by (simp add: count_eq_zero_iff)
    then show ?thesis by linarith
  qed
qed

lemma split_by_predicate_mset:
  assumes "mset xs \<subseteq># filter_mset P M" and "mset ys \<subseteq># filter_mset (\<lambda>x. \<not> P x) M"
  shows "mset (xs @ ys) \<subseteq># M"
proof -
  have "mset xs + mset ys \<subseteq># filter_mset P M + filter_mset (\<lambda>x. \<not> P x) M"
    using assms by (rule mset_subset_eq_mono_add)
  then show ?thesis using multiset_partition [of M P] by simp
qed

lemma take_mset: "mset (take n xs) \<subseteq># mset xs"
  by (metis append_take_drop_id mset_append mset_subset_eq_add_left)

lemma group_in_filter:
  "mset (take n (filter (\<lambda>c. rank c = r) cs)) \<subseteq># filter_mset (\<lambda>c. rank c = r) (mset cs)"
  using take_mset [of n "filter (\<lambda>c. rank c = r) cs"] by simp

lemma other_group_in_filter:
  assumes "r' \<noteq> r"
  shows "mset (take n (filter (\<lambda>c. rank c = r') cs)) \<subseteq># filter_mset (\<lambda>c. \<not> rank c = r) (mset cs)"
proof -
  have "filter_mset (\<lambda>c. rank c = r') (mset cs) \<subseteq># filter_mset (\<lambda>c. \<not> rank c = r) (mset cs)"
    using assms by (intro filter_mset_mono_strong) auto
  then show ?thesis using group_in_filter [of n r' cs] by (rule subset_mset.order_trans [rotated])
qed

lemma byRank_group:
  assumes "g \<in> set (byRank cs)"
  shows "\<exists>r. g = filter (\<lambda>c. rank c = r) cs"
  using assms by (auto simp: byRank_def)

lemma group_first_rank:
  assumes "g = filter (\<lambda>c. rank c = r) cs" and "g \<noteq> []"
  shows "rank (g ! 0) = r"
proof -
  have "g ! 0 \<in> set g" using assms(2) by simp
  then show ?thesis unfolding assms(1) by simp
qed

lemma full_house_cards_mset:
  assumes "t \<in> set (byRank cs)" and "p \<in> set (byRank cs)" and "t \<noteq> []" and "p \<noteq> []"
    and "rank (t ! 0) \<noteq> rank (p ! 0)"
  shows "mset (take 3 t @ take 2 p) \<subseteq># mset cs"
proof -
  obtain rt where t: "t = filter (\<lambda>c. rank c = rt) cs" using byRank_group [OF assms(1)] ..
  obtain rp where p: "p = filter (\<lambda>c. rank c = rp) cs" using byRank_group [OF assms(2)] ..
  have "rp \<noteq> rt"
    using group_first_rank [OF t assms(3)] group_first_rank [OF p assms(4)] assms(5) by auto
  then show ?thesis
    unfolding t p
    by (intro split_by_predicate_mset [where P = "\<lambda>c. rank c = rt"]
          group_in_filter other_group_in_filter)
qed

lemma quad_cards_mset:
  assumes "q \<in> set (byRank cs)" and "q \<noteq> []" and "k \<in> set cs" and "rank k \<noteq> rank (q ! 0)"
  shows "mset (q @ [k]) \<subseteq># mset cs"
proof -
  obtain r where q: "q = filter (\<lambda>c. rank c = r) cs" using byRank_group [OF assms(1)] ..
  have r: "rank k \<noteq> r" using group_first_rank [OF q assms(2)] assms(4) by simp
  have "mset q \<subseteq># filter_mset (\<lambda>c. rank c = r) (mset cs)" unfolding q by simp
  moreover have "mset [k] \<subseteq># filter_mset (\<lambda>c. \<not> rank c = r) (mset cs)"
    using assms(3) r by simp
  ultimately show ?thesis by (rule split_by_predicate_mset)
qed

lemma pickRanks_picked:
  assumes "pickRanks cs rs = Some picked"
  shows "map rank picked = rs \<and> set picked \<subseteq> set cs"
  using assms
proof (induction rs arbitrary: picked)
  case Nil
  then show ?case by simp
next
  case (Cons r rs)
  then obtain c rest where c: "find (\<lambda>x. rank x = r) cs = Some c"
    and rest: "pickRanks cs rs = Some rest" and picked: "picked = c # rest"
    by (auto split: option.splits)
  from c have "rank c = r" "c \<in> set cs" by (auto simp: find_Some_iff)
  then show ?case using Cons.IH [OF rest] picked by simp
qed

lemma pickRanks_mset:
  assumes "pickRanks cs rs = Some picked" and "distinct rs"
  shows "mset picked \<subseteq># mset cs"
proof -
  have "distinct (map rank picked)" using pickRanks_picked [OF assms(1)] assms(2) by simp
  then have "distinct picked" by (simp add: distinct_map)
  then show ?thesis using pickRanks_picked [OF assms(1)] by (intro distinct_subset_mset) simp_all
qed

lemma rankWindows_distinct: "w \<in> set rankWindows \<Longrightarrow> distinct w"
  by (auto simp: rankWindows_def RANK_ORDER_def)

lemma getAllPairs_mset: "p \<in> set (getAllPairs cs) \<Longrightarrow> mset p \<subseteq># mset cs"
proof (induction cs rule: getAllPairs.induct)
  case (1 a b rest)
  show ?case
  proof (cases "p = [a, b] \<and> rank a = rank b")
    case True
    then show ?thesis by simp
  next
    case False
    then have "p \<in> set (getAllPairs (b # rest))" using "1.prems" by (auto split: if_splits)
    then have "mset p \<subseteq># mset (b # rest)" using "1.IH" by (cases "rank a = rank b") auto
    also have "\<dots> \<subseteq># mset (a # b # rest)" by simp
    finally show ?thesis .
  qed
qed simp_all

lemma findFiveCardHands_mset:
  assumes "f \<in> set (findFiveCardHands hnd)"
  shows "mset f \<subseteq># mset hnd"
proof -
  let ?srt = "sortCards hnd"
  let ?groups = "byRank ?srt"
  from assms consider
      (full) t p where "t \<in> set ?groups" "3 \<le> length t" "p \<in> set ?groups" "2 \<le> length p"
        "rank (p ! 0) \<noteq> rank (t ! 0)" "f = take 3 t @ take 2 p"
    | (quad) q c where "q \<in> set ?groups" "length q = 4" "c \<in> set ?srt"
        "rank c \<noteq> rank (q ! 0)" "f = q @ [c]"
    | (window) w where "w \<in> set rankWindows" "pickRanks ?srt w = Some f"
    | (wrapA) "pickRanks ?srt [RA, R2, R3, R4, R5] = Some f"
    | (wrap2) "pickRanks ?srt [R2, R3, R4, R5, R6] = Some f"
    by (auto simp: findFiveCardHands_def Let_def in_map_filter split: option.splits)
  then have "mset f \<subseteq># mset ?srt"
  proof cases
    case full
    then have "t \<noteq> []" "p \<noteq> []" by auto
    then show ?thesis using full full_house_cards_mset [of t ?srt p] by metis
  next
    case quad
    then have "q \<noteq> []" by auto
    then show ?thesis using quad quad_cards_mset [of q ?srt c] by metis
  next
    case window
    then show ?thesis using pickRanks_mset rankWindows_distinct by blast
  next
    case wrapA
    then show ?thesis using pickRanks_mset [of ?srt "[RA, R2, R3, R4, R5]" f] by simp
  next
    case wrap2
    then show ?thesis using pickRanks_mset [of ?srt "[R2, R3, R4, R5, R6]" f] by simp
  qed
  then show ?thesis by simp
qed

lemma findAllStraights_mset:
  assumes "s \<in> set (findAllStraights cs)"
  shows "mset s \<subseteq># mset cs"
proof -
  from assms consider
      (window) w where "w \<in> set rankWindows" "pickRanks cs w = Some s"
    | (wrapA) "pickRanks cs [RA, R2, R3, R4, R5] = Some s"
    by (auto simp: findAllStraights_def in_map_filter split: if_splits option.splits)
  then show ?thesis
  proof cases
    case window
    then show ?thesis using pickRanks_mset rankWindows_distinct by blast
  next
    case wrapA
    then show ?thesis using pickRanks_mset [of cs "[RA, R2, R3, R4, R5]" s] by simp
  qed
qed

lemma findAllStraights_length:
  assumes "s \<in> set (findAllStraights cs)"
  shows "length s = 5"
proof -
  from assms consider
      (window) w where "w \<in> set rankWindows" "pickRanks cs w = Some s"
    | (wrapA) "pickRanks cs [RA, R2, R3, R4, R5] = Some s"
    by (auto simp: findAllStraights_def in_map_filter split: if_splits option.splits)
  then show ?thesis
  proof cases
    case window
    then have "length w = 5" by (auto simp: rankWindows_def RANK_ORDER_def)
    then show ?thesis using pickRanks_picked [OF window(2)] by (metis length_map)
  next
    case wrapA
    have "length [RA, R2, R3, R4, R5] = 5" by simp
    then show ?thesis using pickRanks_picked [OF wrapA] by (metis length_map)
  qed
qed

lemma five_combo_mset:
  assumes "m \<in> set (findAllFiveCardHands cs)"
  shows "mset (c_cards m) \<subseteq># mset cs"
proof -
  from assms consider "m \<in> set (fourOfAKindCombos cs)"
    | "m \<in> set (fullHouseCombos cs)" | "m \<in> set (straightCombos cs)"
    using findAllFiveCardHands_cases by blast
  then show ?thesis
  proof cases
    case 1
    then obtain quad kicker where q: "fourOfAKindOf quad kicker = Some m"
      "quad \<in> set (byRank cs)" "length quad = 4" "kicker \<in> set cs"
      using fourOfAKindCombos_sound by blast
    then have "quad \<noteq> []" by auto
    then show ?thesis
      using q fourOfAKindOf_sound [OF q(1)] quad_cards_mset [of quad cs kicker] by simp
  next
    case 2
    then obtain t p where t: "fullHouseOf t p = Some m" "t \<in> set (byRank cs)"
      "p \<in> set (byRank cs)" "3 \<le> length t" "2 \<le> length p"
      using fullHouseCombos_sound by blast
    then have "t \<noteq> []" "p \<noteq> []" by auto
    then show ?thesis
      using t fullHouseOf_sound [OF t(1)] full_house_cards_mset [of t cs p] by simp
  next
    case 3
    then obtain s where "straightOf s = Some m" "s \<in> set (findAllStraights cs)"
      using straightCombos_sound by blast
    then show ?thesis using straightOf_sound [of s m] findAllStraights_mset by simp
  qed
qed

lemma five_combo_not_single:
  assumes "m \<in> set (findAllFiveCardHands cs)"
  shows "htype (c_hand m) \<noteq> Single"
proof -
  from assms consider "m \<in> set (fourOfAKindCombos cs)"
    | "m \<in> set (fullHouseCombos cs)" | "m \<in> set (straightCombos cs)"
    using findAllFiveCardHands_cases by blast
  then show ?thesis
  proof cases
    case 1
    then obtain quad kicker where "fourOfAKindOf quad kicker = Some m"
      using fourOfAKindCombos_sound by blast
    then show ?thesis using fourOfAKindOf_sound [of quad kicker m] by simp
  next
    case 2
    then obtain t p where "fullHouseOf t p = Some m" using fullHouseCombos_sound by blast
    then show ?thesis using fullHouseOf_sound [of t p m] by simp
  next
    case 3
    then obtain s where s: "straightOf s = Some m" "s \<in> set (findAllStraights cs)"
      using straightCombos_sound by blast
    then have "identifyHand s = Some (c_hand m)" using straightOf_sound [of s m] by auto
    from identifyHand_shape [OF this] show ?thesis
      using findAllStraights_length [OF s(2)] by auto
  qed
qed

lemma candidates_of_evaluation:
  assumes "m \<in> set (bombs (evaluateHand hnd) @ fiveCards (evaluateHand hnd)
                     @ pairs (evaluateHand hnd) @ map singleMove (singles (evaluateHand hnd)))"
  shows "mset (c_cards m) \<subseteq># mset hnd \<and> identifyHand (c_cards m) = Some (c_hand m)"
proof -
  from assms consider
      (five) "m \<in> set (findAllFiveCardHands (sortCards hnd))"
    | (pair) "m \<in> set (findAllPairs (sortCards hnd))"
    | (single) c where "m = singleMove c" "c \<in> set (sortCards hnd)"
    by (auto simp: evaluateHand_fields)
  then show ?thesis
  proof cases
    case five
    then show ?thesis using five_combo_mset [OF five] five_combo_identified [OF five] by simp
  next
    case pair
    then show ?thesis
      using findAllPairs_sound [OF pair] getAllPairs_mset [of "c_cards m" "sortCards hnd"] by simp
  next
    case single
    have "c_cards m = [c]" "identifyHand [c] = Some (c_hand m)"
      using single(1) singleMove_sound [of c] by auto
    then show ?thesis using single(2) by simp
  qed
qed

section \<open>Singles of an evaluation\<close>

lemma usedIds_iff:
  "i \<in> set (usedIds combos) \<longleftrightarrow> (\<exists>m x. m \<in> set combos \<and> x \<in> set (c_cards m) \<and> card_id x = i)"
  by (auto simp: usedIds_def)

text \<open>
  Claim C6.  The singles of an evaluation are exactly the cards of the input (in sorted
  order, each as often as the input holds it) whose id is the id of no card of any returned
  bomb, fiveCards or pairs combination; so no single shares its id with a card of such a
  combination, for an input of 13 cards as for any other.
\<close>

theorem C6_singles_disjoint_from_combinations:
  "singles (evaluateHand cs) =
     filter (\<lambda>c. \<not> (\<exists>m x. m \<in> set (bombs (evaluateHand cs) @ fiveCards (evaluateHand cs)
                                        @ pairs (evaluateHand cs))
                           \<and> x \<in> set (c_cards m) \<and> card_id x = card_id c))
            (sortCards cs)
   \<and> (c \<in> set (singles (evaluateHand cs)) \<longleftrightarrow>
        c \<in> set cs
        \<and> \<not> (\<exists>m x. m \<in> set (bombs (evaluateHand cs) @ fiveCards (evaluateHand cs)
                                 @ pairs (evaluateHand cs))
                    \<and> x \<in> set (c_cards m) \<and> card_id x = card_id c))
   \<and> mset (singles (evaluateHand cs)) =
       filter_mset (\<lambda>c. \<not> (\<exists>m x. m \<in> set (bombs (evaluateHand cs) @ fiveCards (evaluateHand cs)
                                               @ pairs (evaluateHand cs))
                                  \<and> x \<in> set (c_cards m) \<and> card_id x = card_id c))
                   (mset cs)
   \<and> \<not> (\<exists>s m x. s \<in> set (singles (evaluateHand cs))
                  \<and> m \<in> set (bombs (evaluateHand cs) @ fiveCards (evaluateHand cs)
                               @ pairs (evaluateHand cs))
                  \<and> x \<in> set (c_cards m) \<and> card_id x = card_id s)"
proof -
  let ?combos = "bombs (evaluateHand cs) @ fiveCards (evaluateHand cs) @ pairs (evaluateHand cs)"
  let ?unused = "\<lambda>c. \<not> (\<exists>m x. m \<in> set ?combos \<and> x \<in> set (c_cards m) \<and> card_id x = card_id c)"
  have p: "(card_id c \<notin> set (usedIds ?combos)) = ?unused c" for c
    unfolding usedIds_iff by simp
  have s: "singles (evaluateHand cs) = filter ?unused (sortCards cs)"
    unfolding evaluateHand_fields(4) [of cs] p ..
  have m: "mset (singles (evaluateHand cs)) = filter_mset ?unused (mset cs)"
    unfolding s by (simp only: mset_filter mset_sortCards)
  have i: "c \<in> set (singles (evaluateHand cs)) \<longleftrightarrow> c \<in> set cs \<and> ?unused c" for c
    unfolding s by simp
  have d: "\<not> (\<exists>s m x. s \<in> set (singles (evaluateHand cs)) \<and> m \<in> set ?combos
                  \<and> x \<in> set (c_cards m) \<and> card_id x = card_id s)"
    using i by meson
  show ?thesis using s i m d by (intro conjI)
qed

theorem C6_singles_disjoint_from_combinations_witness:
  "singles (evaluateHand [mkCard R3 Clubs, mkCard R3 Hearts, mkCard R4 Diamonds, mkCard R5 Spades, mkCard R6 Clubs,
      mkCard R7 Hearts, mkCard R9 Clubs, mkCard R9 Spades, mkCard RJ Diamonds, mkCard RQ Hearts,
      mkCard RK Clubs, mkCard R2 Diamonds, mkCard R2 Spades]) = [mkCard RJ Diamonds, mkCard RQ Hearts, mkCard RK Clubs]
   \<and> map c_cards (bombs (evaluateHand [mkCard R3 Clubs, mkCard R3 Hearts, mkCard R4 Diamonds, mkCard R5 Spades, mkCard R6 Clubs,
      mkCard R7 Hearts, mkCard R9 Clubs, mkCard R9 Spades, mkCard RJ Diamonds, mkCard RQ Hearts,
      mkCard RK Clubs, mkCard R2 Diamonds, mkCard R2 Spades]) @ fiveCards (evaluateHand [mkCard R3 Clubs, mkCard R3 Hearts, mkCard R4 Diamonds, mkCard R5 Spades, mkCard R6 Clubs,
      mkCard R7 Hearts, mkCard R9 Clubs, mkCard R9 Spades, mkCard RJ Diamonds, mkCard RQ Hearts,
      mkCard RK Clubs, mkCard R2 Diamonds, mkCard R2 Spades]) @ pairs (evaluateHand [mkCard R3 Clubs, mkCard R3 Hearts, mkCard R4 Diamonds, mkCard R5 Spades, mkCard R6 Clubs,
      mkCard R7 Hearts, mkCard R9 Clubs, mkCard R9 Spades, mkCard RJ Diamonds, mkCard RQ Hearts,
      mkCard RK Clubs, mkCard R2 Diamonds, mkCard R2 Spades]))
       = [[mkCard R3 Clubs, mkCard R4 Diamonds, mkCard R5 Spades, mkCard R6 Clubs, mkCard R7 Hearts],
          [mkCard R2 Diamonds, mkCard R2 Spades],
          [mkCard R9 Clubs, mkCard R9 Spades],
          [mkCard R3 Clubs, mkCard R3 Hearts]]
   \<and> \<not> (\<exists>s m x. s \<in> set (singles (evaluateHand [mkCard R3 Clubs, mkCard R3 Hearts, mkCard R4 Diamonds, mkCard R5 Spades, mkCard R6 Clubs,
      mkCard R7 Hearts, mkCard R9 Clubs, mkCard R9 Spades, mkCard RJ Diamonds, mkCard RQ Hearts,
      mkCard RK Clubs, mkCard R2 Diamonds, mkCard R2 Spades]))
                  \<and> m \<in> set (bombs (evaluateHand [mkCard R3 Clubs, mkCard R3 Hearts, mkCard R4 Diamonds, mkCard R5 Spades, mkCard R6 Clubs,
      mkCard R7 Hearts, mkCard R9 Clubs, mkCard R9 Spades, mkCard RJ Diamonds, mkCard RQ Hearts,
      mkCard RK Clubs, mkCard R2 Diamonds, mkCard R2 Spades]) @ fiveCards (evaluateHand [mkCard R3 Clubs, mkCard R3 Hearts, mkCard R4 Diamonds, mkCard R5 Spades, mkCard R6 Clubs,
      mkCard R7 Hearts, mkCard R9 Clubs, mkCard R9 Spades, mkCard RJ Diamonds, mkCard RQ Hearts,
      mkCard RK Clubs, mkCard R2 Diamonds, mkCard R2 Spades])
                               @ pairs (evaluateHand [mkCard R3 Clubs, mkCard R3 Hearts, mkCard R4 Diamonds, mkCard R5 Spades, mkCard R6 Clubs,
      mkCard R7 Hearts, mkCard R9 Clubs, mkCard R9 Spades, mkCard RJ Diamonds, mkCard RQ Hearts,
      mkCard RK Clubs, mkCard R2 Diamonds, mkCard R2 Spades]))
                  \<and> x \<in> set (c_cards m) \<and> card_id x = card_id s)"
proof -
  have a: "singles (evaluateHand [mkCard R3 Clubs, mkCard R3 Hearts, mkCard R4 Diamonds, mkCard R5 Spades, mkCard R6 Clubs,
      mkCard R7 Hearts, mkCard R9 Clubs, mkCard R9 Spades, mkCard RJ Diamonds, mkCard RQ Hearts,
      mkCard RK Clubs, mkCard R2 Diamonds, mkCard R2 Spades]) = [mkCard RJ Diamonds, mkCard RQ Hearts, mkCard RK Clubs]"
    by code_simp
  have b: "map c_cards (bombs (evaluateHand [mkCard R3 Clubs, mkCard R3 Hearts, mkCard R4 Diamonds, mkCard R5 Spades, mkCard R6 Clubs,
      mkCard R7 Hearts, mkCard R9 Clubs, mkCard R9 Spades, mkCard RJ Diamonds, mkCard RQ Hearts,
      mkCard RK Clubs, mkCard R2 Diamonds, mkCard R2 Spades]) @ fiveCards (evaluateHand [mkCard R3 Clubs, mkCard R3 Hearts, mkCard R4 Diamonds, mkCard R5 Spades, mkCard R6 Clubs,
      mkCard R7 Hearts, mkCard R9 Clubs, mkCard R9 Spades, mkCard RJ Diamonds, mkCard RQ Hearts,
      mkCard RK Clubs, mkCard R2 Diamonds, mkCard R2 Spades]) @ pairs (evaluateHand [mkCard R3 Clubs, mkCard R3 Hearts, mkCard R4 Diamonds, mkCard R5 Spades, mkCard R6 Clubs,
      mkCard R7 Hearts, mkCard R9 Clubs, mkCard R9 Spades, mkCard RJ Diamonds, mkCard RQ Hearts,
      mkCard RK Clubs, mkCard R2 Diamonds, mkCard R2 Spades]))
       = [[mkCard R3 Clubs, mkCard R4 Diamonds, mkCard R5 Spades, mkCard R6 Clubs, mkCard R7 Hearts],
          [mkCard R2 Diamonds, mkCard R2 Spades],
          [mkCard R9 Clubs, mkCard R9 Spades],
          [mkCard R3 Clubs, mkCard R3 Hearts]]"
    by code_simp
  note d = C6_singles_disjoint_from_combinations
    [of "[mkCard R3 Clubs, mkCard R3 Hearts, mkCard R4 Diamonds, mkCard R5 Spades, mkCard R6 Clubs,
      mkCard R7 Hearts, mkCard R9 Clubs, mkCard R9 Spades, mkCard RJ Diamonds, mkCard RQ Hearts,
      mkCard RK Clubs, mkCard R2 Diamonds, mkCard R2 Spades]",
     THEN conjunct2, THEN conjunct2, THEN conjunct2]
  show ?thesis by (intro conjI a b d)
qed

section \<open>Leading with the lookahead bot\<close>

lemma lead_candidates_no_bomb:
  assumes "m \<in> set (getAllLegalMoves cs (evaluateHand cs) None)"
  shows "category m \<noteq> Bomb \<and> \<not> isBomb (c_hand m)"
proof -
  from assms consider
      (five) "m \<in> set (fiveCards (evaluateHand cs))"
    | (pair) "m \<in> set (pairs (evaluateHand cs))"
    | (single) c where "m = singleMove c"
    by (auto simp: getAllLegalMoves_def)
  then show ?thesis
  proof cases
    case five
    then have nb: "htype (c_hand m) \<noteq> FourOfAKind" "htype (c_hand m) \<noteq> StraightFlush"
      and mem: "m \<in> set (findAllFiveCardHands (sortCards cs))"
      by (simp_all add: evaluateHand_fields)
    then show ?thesis using five_combo_category [OF mem] by (simp add: isBomb_def)
  next
    case pair
    then show ?thesis using findAllPairs_sound [of m "sortCards cs"]
      by (simp add: evaluateHand_fields isBomb_def)
  next
    case single
    then show ?thesis using singleMove_sound [of c] by (simp add: isBomb_def)
  qed
qed

text \<open>
  Claim C9.  When the lookahead bot leads (no last played hand), its candidates are the
  non-bomb fiveCards, the pairs and the singles of the evaluation, and no bomb is among
  them.  So for the hand 3-4-5-6-7 of Clubs, which is a straight flush (a legal lead) and
  whose evaluation holds that bomb and nothing else, the bot returns null.
\<close>

theorem C9_lead_excludes_bombs:
  "getAllLegalMoves cs ev None = fiveCards ev @ pairs ev @ map singleMove (singles ev)
   \<and> list_all (\<lambda>m. category m \<noteq> Bomb \<and> \<not> isBomb (c_hand m))
        (getAllLegalMoves cs (evaluateHand cs) None)
   \<and> identifyHand [mkCard R3 Clubs, mkCard R4 Clubs, mkCard R5 Clubs, mkCard R6 Clubs, mkCard R7 Clubs]
       = Some \<lparr>cards = [mkCard R3 Clubs, mkCard R4 Clubs, mkCard R5 Clubs, mkCard R6 Clubs,
                         mkCard R7 Clubs],
               htype = StraightFlush, strength = 20\<rparr>
   \<and> map c_cards (bombs (evaluateHand
        [mkCard R3 Clubs, mkCard R4 Clubs, mkCard R5 Clubs, mkCard R6 Clubs, mkCard R7 Clubs]))
       = [[mkCard R3 Clubs, mkCard R4 Clubs, mkCard R5 Clubs, mkCard R6 Clubs, mkCard R7 Clubs]]
   \<and> chooseBestMove
        [mkCard R3 Clubs, mkCard R4 Clubs, mkCard R5 Clubs, mkCard R6 Clubs, mkCard R7 Clubs]
        (evaluateHand [mkCard R3 Clubs, mkCard R4 Clubs, mkCard R5 Clubs, mkCard R6 Clubs,
                       mkCard R7 Clubs])
        \<lparr>myHandSize = 5, opponentsHandSizes = [13, 13, 13], lastPlayedHand = None,
         consecutivePasses = 0\<rparr> = None"
proof (intro conjI)
  show "getAllLegalMoves cs ev None = fiveCards ev @ pairs ev @ map singleMove (singles ev)"
    by (simp add: getAllLegalMoves_def)
  show "list_all (\<lambda>m. category m \<noteq> Bomb \<and> \<not> isBomb (c_hand m))
        (getAllLegalMoves cs (evaluateHand cs) None)"
    unfolding list_all_iff using lead_candidates_no_bomb by blast
qed code_simp+

section \<open>Following a pair with the rank-based bot\<close>

lemma getSmartBotPlay_follow:
  "getSmartBotPlay hnd (Some lp) False opp passes nxt =
     (if htype lp = Single
      then followSingle hnd (sortCards hnd) (myBombsOf (findFiveCardHands (sortCards hnd))) lp opp nxt
      else if htype lp = PairH
      then followPair hnd (sortCards hnd) (myBombsOf (findFiveCardHands (sortCards hnd))) lp opp
      else if htype lp \<in> {Straight, FullHouse, FourOfAKind, StraightFlush, Dragon}
      then followFive (findFiveCardHands (sortCards hnd)) lp
      else Inr None)"
  by (simp add: getSmartBotPlay_def Let_def)




lemma validPairs_first:
  assumes "validPairs srt lp \<noteq> []"
  shows "hd (validPairs srt lp) ! 0 = hd (hd (validPairs srt lp))"
proof -
  have "hd (validPairs srt lp) \<in> set (getAllPairs srt)"
    using assms hd_in_set [of "validPairs srt lp"] by (simp add: validPairs_def)
  then have "hd (validPairs srt lp) \<noteq> []" using getAllPairs_length by fastforce
  then show ?thesis by (rule nth0_hd)
qed






















section \<open>Passing when nothing beats the reference\<close>

lemma myBombsOf_source:
  assumes "myBombsOf fives \<noteq> []"
  shows "\<exists>f h. f \<in> set fives \<and> identifyHand f = Some h \<and> isBomb h"
proof -
  from assms obtain h where "h \<in> set (List.map_filter identifyHand fives)" "isBomb h"
    by (auto simp: myBombsOf_def filter_empty_conv)
  then show ?thesis by (auto simp: in_map_filter)
qed

lemma followSingle_pass:
  assumes "list_all (\<lambda>c. \<not> getCardWeight c > strength lp) srt" and "myBombs = []"
    and "srt \<noteq> [] \<or> nxt \<noteq> Some 1"
  shows "followSingle hnd srt myBombs lp opp nxt = Inr None"
proof (cases "nxt = Some 1")
  case True
  then have ne: "srt \<noteq> []" using assms(3) by simp
  then have "srt ! (length srt - 1) \<in> set srt" by simp
  then have "\<not> getCardWeight (srt ! (length srt - 1)) > strength lp"
    using assms(1) by (simp add: list_all_iff)
  then show ?thesis using True ne assms(2) by (simp add: followSingle_def Let_def)
next
  case False
  have "filter (\<lambda>c. getCardWeight c > strength lp) srt = []"
    using assms(1) by (simp add: list_all_iff filter_empty_conv)
  then show ?thesis using False assms(2) by (simp add: followSingle_def Let_def)
qed

lemma followPair_pass:
  assumes "validPairs srt lp = []" and "myBombs = []"
  shows "followPair hnd srt myBombs lp opp = Inr None"
  using assms by (simp add: followPair_def)

lemma followFive_pass:
  assumes "\<And>f h. f \<in> set myFives \<Longrightarrow> identifyHand f = Some h \<Longrightarrow> \<not> compareHands h lp"
  shows "followFive myFives lp = Inr None"
proof -
  have "find (\<lambda>f. case identifyHand f of None \<Rightarrow> False | Some h \<Rightarrow> compareHands h lp) myFives = None"
    using assms by (auto simp: find_None_iff split: option.splits)
  then show ?thesis by (simp add: followFive_def)
qed

lemma smart_single_pass:
  assumes "htype lp = Single" and "list_all (\<lambda>c. \<not> getCardWeight c > strength lp) hnd"
    and "myBombsOf (findFiveCardHands (sortCards hnd)) = []" and "hnd \<noteq> [] \<or> nxt \<noteq> Some 1"
  shows "getSmartBotPlay hnd (Some lp) False opp passes nxt = Inr None"
proof -
  have "list_all (\<lambda>c. \<not> getCardWeight c > strength lp) (sortCards hnd)"
    using assms(2) by (simp add: list_all_iff)
  moreover have "sortCards hnd \<noteq> [] \<or> nxt \<noteq> Some 1"
    using assms(4) length_sortCards [of hnd] by (metis length_0_conv)
  ultimately show ?thesis
    using assms(1,3) by (simp add: getSmartBotPlay_follow followSingle_pass)
qed

lemma chooseBestMove_no_legal:
  assumes "\<And>m. m \<in> set (bombs ev @ fiveCards ev @ pairs ev @ map singleMove (singles ev))
             \<Longrightarrow> \<not> canBeat (c_hand m) lp"
    and "lastPlayedHand ctx = Some lp"
  shows "chooseBestMove hnd ev ctx = None"
proof -
  have "getAllLegalMoves hnd ev (Some lp) = []"
    using assms(1) by (auto simp: getAllLegalMoves_def filter_empty_conv)
  then show ?thesis using assms(2) by (simp add: chooseBestMove_def)
qed

lemma no_candidate_smart:
  assumes ref: "identifyHand rc = Some ref"
    and none: "\<And>cs h. mset cs \<subseteq># mset hnd \<Longrightarrow> identifyHand cs = Some h \<Longrightarrow> \<not> compareHands h ref"
    and ne: "hnd \<noteq> [] \<or> nxt \<noteq> Some 1 \<or> htype ref \<noteq> Single"
  shows "getSmartBotPlay hnd (Some ref) False opp passes nxt = Inr None"
proof -
  let ?srt = "sortCards hnd"
  let ?fives = "findFiveCardHands ?srt"
  note shape = identifyHand_shape [OF ref]
  have fives: "\<not> compareHands h ref" if "f \<in> set ?fives" "identifyHand f = Some h" for f h
  proof -
    have "mset f \<subseteq># mset ?srt" using that(1) by (rule findFiveCardHands_mset)
    then show ?thesis using none that(2) by simp
  qed
  have nobomb: "myBombsOf ?fives = []" if "\<not> isBomb ref"
  proof (rule ccontr)
    assume "myBombsOf ?fives \<noteq> []"
    then obtain f h where f: "f \<in> set ?fives" "identifyHand f = Some h" "isBomb h"
      using myBombsOf_source by blast
    then have "compareHands h ref" using that by (simp add: compareHands_def)
    then show False using fives f by blast
  qed
  consider (single) "htype ref = Single" | (pair) "htype ref = PairH"
    | (five) "htype ref \<in> {Straight, FullHouse, FourOfAKind, StraightFlush, Dragon}"
    using shape by auto
  then show ?thesis
  proof cases
    case single
    then have len: "length (cards ref) = 1" using shape by auto
    have "\<not> getCardWeight c > strength ref" if "c \<in> set hnd" for c
    proof -
      have "mset [c] \<subseteq># mset hnd" using that by simp
      then have "\<not> compareHands \<lparr>cards = [c], htype = Single, strength = getCardWeight c\<rparr> ref"
        using none identifyHand_single by blast
      then show ?thesis using single len by (simp add: compareHands_def isBomb_def)
    qed
    then have "list_all (\<lambda>c. \<not> getCardWeight c > strength ref) hnd" by (simp add: list_all_iff)
    moreover have "myBombsOf ?fives = []" using nobomb single by (simp add: isBomb_def)
    moreover have "hnd \<noteq> [] \<or> nxt \<noteq> Some 1" using single ne by simp
    ultimately show ?thesis using single by (intro smart_single_pass)
  next
    case pair
    then have len: "length (cards ref) = 2" using shape by auto
    have "validPairs ?srt ref = []"
    proof (rule ccontr)
      assume "validPairs ?srt ref \<noteq> []"
      then obtain p where "p \<in> set (validPairs ?srt ref)" by (meson last_in_set)
      then obtain h where p: "p \<in> set (getAllPairs ?srt)" "identifyHand p = Some h"
        "strength h > strength ref"
        by (auto simp: validPairs_def split: option.splits)
      from p(1) obtain a b where "p = [a, b]" using getAllPairs_length by blast
      then have "htype h = PairH" "length (cards h) = 2"
        using identifyHand_shape [OF p(2)] by auto
      then have "compareHands h ref" using pair len p(3) by (simp add: compareHands_def isBomb_def)
      moreover have "mset p \<subseteq># mset hnd" using getAllPairs_mset [OF p(1)] by simp
      ultimately show False using none p(2) by blast
    qed
    moreover have "myBombsOf ?fives = []" using nobomb pair by (simp add: isBomb_def)
    ultimately show ?thesis using pair by (simp add: getSmartBotPlay_follow followPair_pass)
  next
    case five
    then have "getSmartBotPlay hnd (Some ref) False opp passes nxt = followFive ?fives ref"
      by (auto simp: getSmartBotPlay_follow)
    then show ?thesis using followFive_pass [of ?fives ref] fives by simp
  qed
qed

lemma no_candidate_lookahead:
  assumes ref: "identifyHand rc = Some ref"
    and none: "\<And>cs h. mset cs \<subseteq># mset hnd \<Longrightarrow> identifyHand cs = Some h \<Longrightarrow> \<not> compareHands h ref"
    and ctx: "lastPlayedHand ctx = Some ref"
  shows "chooseBestMove hnd (evaluateHand hnd) ctx = None"
proof (rule chooseBestMove_no_legal [OF _ ctx])
  fix m
  assume "m \<in> set (bombs (evaluateHand hnd) @ fiveCards (evaluateHand hnd)
                    @ pairs (evaluateHand hnd) @ map singleMove (singles (evaluateHand hnd)))"
  then have m: "mset (c_cards m) \<subseteq># mset hnd" "identifyHand (c_cards m) = Some (c_hand m)"
    using candidates_of_evaluation by blast+
  then have "\<not> compareHands (c_hand m) ref" using none by blast
  then show "\<not> canBeat (c_hand m) ref" using canBeat_compareHands [OF m(2) ref] by blast
qed

lemma lookahead_single_pass:
  assumes "htype ref = Single" and "list_all (\<lambda>c. \<not> getCardWeight c > strength ref) hnd"
    and "bombs (evaluateHand hnd) = []" and ctx: "lastPlayedHand ctx = Some ref"
  shows "chooseBestMove hnd (evaluateHand hnd) ctx = None"
proof (rule chooseBestMove_no_legal [OF _ ctx])
  fix m
  assume "m \<in> set (bombs (evaluateHand hnd) @ fiveCards (evaluateHand hnd)
                    @ pairs (evaluateHand hnd) @ map singleMove (singles (evaluateHand hnd)))"
  then consider
      (five) "m \<in> set (fiveCards (evaluateHand hnd))"
    | (pair) "m \<in> set (findAllPairs (sortCards hnd))"
    | (single) c where "m = singleMove c" "c \<in> set (sortCards hnd)"
    using assms(3) by (auto simp: evaluateHand_fields(3,4))
  then show "\<not> canBeat (c_hand m) ref"
  proof cases
    case five
    then have nb: "htype (c_hand m) \<noteq> FourOfAKind" "htype (c_hand m) \<noteq> StraightFlush"
      and mem: "m \<in> set (findAllFiveCardHands (sortCards hnd))"
      by (simp_all add: evaluateHand_fields)
    have "htype (c_hand m) \<noteq> Single" using mem by (rule five_combo_not_single)
    then show ?thesis using nb assms(1) by (simp add: canBeat_def)
  next
    case pair
    then show ?thesis using findAllPairs_sound [OF pair] assms(1) by (simp add: canBeat_def)
  next
    case single
    then have "\<not> getCardWeight c > strength ref" using assms(2) by (simp add: list_all_iff)
    then show ?thesis using single(1) singleMove_sound [of c] assms(1) by (simp add: canBeat_def)
  qed
qed

lemma filter_nonempty: "filter P xs \<noteq> [] \<Longrightarrow> \<exists>m. m \<in> set xs \<and> P m"
  by (induction xs) (auto split: if_splits)

lemma no_bomb_in_hand:
  assumes "\<not> (\<exists>cs h. mset cs \<subseteq># mset hnd \<and> identifyHand cs = Some h \<and> isBomb h)"
  shows "bombs (evaluateHand hnd) = [] \<and> myBombsOf (findFiveCardHands (sortCards hnd)) = []"
proof (intro conjI)
  show "bombs (evaluateHand hnd) = []"
  proof (rule ccontr)
    assume "bombs (evaluateHand hnd) \<noteq> []"
    then have "filter (\<lambda>c. htype (c_hand c) = FourOfAKind \<or> htype (c_hand c) = StraightFlush)
            (findAllFiveCardHands (sortCards hnd)) \<noteq> []"
      unfolding evaluateHand_fields(1) .
    from filter_nonempty [OF this] obtain m where
      "m \<in> set (findAllFiveCardHands (sortCards hnd))
        \<and> (htype (c_hand m) = FourOfAKind \<or> htype (c_hand m) = StraightFlush)" ..
    then have m: "m \<in> set (findAllFiveCardHands (sortCards hnd))"
      "htype (c_hand m) = FourOfAKind \<or> htype (c_hand m) = StraightFlush"
      by simp_all
    have "mset (c_cards m) \<subseteq># mset hnd" using five_combo_mset [OF m(1)] by simp
    moreover have "identifyHand (c_cards m) = Some (c_hand m)" using m(1) by (rule five_combo_identified)
    moreover have "isBomb (c_hand m)" using m(2) by (simp add: isBomb_def)
    ultimately have "mset (c_cards m) \<subseteq># mset hnd \<and> identifyHand (c_cards m) = Some (c_hand m)
        \<and> isBomb (c_hand m)" by (intro conjI)
    then have "\<exists>h. mset (c_cards m) \<subseteq># mset hnd \<and> identifyHand (c_cards m) = Some h \<and> isBomb h" ..
    then have "\<exists>cs h. mset cs \<subseteq># mset hnd \<and> identifyHand cs = Some h \<and> isBomb h" ..
    with assms show False ..
  qed
  show "myBombsOf (findFiveCardHands (sortCards hnd)) = []"
  proof (rule ccontr)
    assume "myBombsOf (findFiveCardHands (sortCards hnd)) \<noteq> []"
    from myBombsOf_source [OF this] obtain f where
      "\<exists>h. f \<in> set (findFiveCardHands (sortCards hnd)) \<and> identifyHand f = Some h \<and> isBomb h" ..
    then obtain h where "f \<in> set (findFiveCardHands (sortCards hnd)) \<and> identifyHand f = Some h
        \<and> isBomb h" ..
    then have f: "f \<in> set (findFiveCardHands (sortCards hnd))" "identifyHand f = Some h" "isBomb h"
      by simp_all
    have "mset f \<subseteq># mset hnd" using findFiveCardHands_mset [OF f(1)] by simp
    then have "mset f \<subseteq># mset hnd \<and> identifyHand f = Some h \<and> isBomb h"
      using f(2,3) by (intro conjI)
    then have "\<exists>h. mset f \<subseteq># mset hnd \<and> identifyHand f = Some h \<and> isBomb h" ..
    then have "\<exists>cs h. mset cs \<subseteq># mset hnd \<and> identifyHand cs = Some h \<and> isBomb h" ..
    with assms show False ..
  qed
qed

text \<open>
  Claim C7.  Let the reference be a classified hand and let no combination of cards drawn
  from the hand (each card used at most as often as the hand holds it) be classified to a
  hand that beats the reference.  Then the lookahead bot, given the evaluation of the hand,
  returns null, and so does the rank-based bot on a follow turn.  In particular, against a
  Single reference, a hand none of whose cards outweighs the reference and from which no
  bomb can be drawn makes both bots return null.  The rank-based bot is called for the
  player to move, who holds at least one card; the one input left out is the empty hand
  against a Single reference when the next player holds exactly one card.
\<close>

theorem C7_pass_when_nothing_beats:
  "(identifyHand rc = Some ref
      \<and> \<not> (\<exists>cs h. mset cs \<subseteq># mset hnd \<and> identifyHand cs = Some h \<and> compareHands h ref)
    \<longrightarrow> chooseBestMove hnd (evaluateHand hnd)
          \<lparr>myHandSize = n, opponentsHandSizes = sizes, lastPlayedHand = Some ref,
           consecutivePasses = k\<rparr> = None
        \<and> (hnd \<noteq> [] \<or> nxt \<noteq> Some 1 \<or> htype ref \<noteq> Single
             \<longrightarrow> getSmartBotPlay hnd (Some ref) False opp passes nxt = Inr None))
   \<and> (htype ref = Single \<and> list_all (\<lambda>c. \<not> getCardWeight c > strength ref) hnd
        \<and> \<not> (\<exists>cs h. mset cs \<subseteq># mset hnd \<and> identifyHand cs = Some h \<and> isBomb h)
      \<longrightarrow> chooseBestMove hnd (evaluateHand hnd)
            \<lparr>myHandSize = n, opponentsHandSizes = sizes, lastPlayedHand = Some ref,
             consecutivePasses = k\<rparr> = None
          \<and> (hnd \<noteq> [] \<or> nxt \<noteq> Some 1
               \<longrightarrow> getSmartBotPlay hnd (Some ref) False opp passes nxt = Inr None))"
proof (intro conjI impI)
  assume a: "identifyHand rc = Some ref
      \<and> \<not> (\<exists>cs h. mset cs \<subseteq># mset hnd \<and> identifyHand cs = Some h \<and> compareHands h ref)"
  then have ref: "identifyHand rc = Some ref" by (rule conjunct1)
  from a have nn: "\<not> (\<exists>cs h. mset cs \<subseteq># mset hnd \<and> identifyHand cs = Some h
      \<and> compareHands h ref)" by (rule conjunct2)
  have none: "\<not> compareHands h ref" if "mset cs \<subseteq># mset hnd" "identifyHand cs = Some h" for cs h
  proof
    assume "compareHands h ref"
    with that have "mset cs \<subseteq># mset hnd \<and> identifyHand cs = Some h \<and> compareHands h ref"
      by (intro conjI)
    then have "\<exists>h. mset cs \<subseteq># mset hnd \<and> identifyHand cs = Some h \<and> compareHands h ref" ..
    then have "\<exists>cs h. mset cs \<subseteq># mset hnd \<and> identifyHand cs = Some h \<and> compareHands h ref" ..
    with nn show False ..
  qed
  show "chooseBestMove hnd (evaluateHand hnd)
          \<lparr>myHandSize = n, opponentsHandSizes = sizes, lastPlayedHand = Some ref,
           consecutivePasses = k\<rparr> = None"
  proof (rule no_candidate_lookahead [OF ref])
    fix cs h
    assume "mset cs \<subseteq># mset hnd" "identifyHand cs = Some h"
    then show "\<not> compareHands h ref" by (rule none)
  next
    show "lastPlayedHand \<lparr>myHandSize = n, opponentsHandSizes = sizes, lastPlayedHand = Some ref,
           consecutivePasses = k\<rparr> = Some ref" by simp
  qed
  assume ne: "hnd \<noteq> [] \<or> nxt \<noteq> Some 1 \<or> htype ref \<noteq> Single"
  show "getSmartBotPlay hnd (Some ref) False opp passes nxt = Inr None"
  proof (rule no_candidate_smart [OF ref _ ne])
    fix cs h
    assume "mset cs \<subseteq># mset hnd" "identifyHand cs = Some h"
    then show "\<not> compareHands h ref" by (rule none)
  qed
next
  assume a: "htype ref = Single \<and> list_all (\<lambda>c. \<not> getCardWeight c > strength ref) hnd
        \<and> \<not> (\<exists>cs h. mset cs \<subseteq># mset hnd \<and> identifyHand cs = Some h \<and> isBomb h)"
  note nb = a [THEN conjunct2, THEN conjunct2]
  note b = no_bomb_in_hand [OF nb]
  show "chooseBestMove hnd (evaluateHand hnd)
          \<lparr>myHandSize = n, opponentsHandSizes = sizes, lastPlayedHand = Some ref,
           consecutivePasses = k\<rparr> = None"
    by (rule lookahead_single_pass [OF a [THEN conjunct1] a [THEN conjunct2, THEN conjunct1]
          b [THEN conjunct1]]) simp
  assume ne: "hnd \<noteq> [] \<or> nxt \<noteq> Some 1"
  show "getSmartBotPlay hnd (Some ref) False opp passes nxt = Inr None"
    by (rule smart_single_pass [OF a [THEN conjunct1] a [THEN conjunct2, THEN conjunct1]
          b [THEN conjunct2] ne])
qed

theorem C7_pass_when_nothing_beats_witness:
  "identifyHand [mkCard R2 Spades] = Some \<lparr>cards = [mkCard R2 Spades], htype = Single, strength = 123\<rparr>
   \<and> \<not> (\<exists>cs h. mset cs \<subseteq># mset [mkCard R4 Spades, mkCard R3 Clubs, mkCard R4 Diamonds] \<and> identifyHand cs = Some h \<and> compareHands h \<lparr>cards = [mkCard R2 Spades], htype = Single, strength = 123\<rparr>)
   \<and> [mkCard R4 Spades, mkCard R3 Clubs, mkCard R4 Diamonds] \<noteq> []
   \<and> chooseBestMove [mkCard R4 Spades, mkCard R3 Clubs, mkCard R4 Diamonds] (evaluateHand [mkCard R4 Spades, mkCard R3 Clubs, mkCard R4 Diamonds]) \<lparr>myHandSize = 3, opponentsHandSizes = [5, 5, 1], lastPlayedHand = Some \<lparr>cards = [mkCard R2 Spades], htype = Single, strength = 123\<rparr>, consecutivePasses = 0\<rparr> = None
   \<and> getSmartBotPlay [mkCard R4 Spades, mkCard R3 Clubs, mkCard R4 Diamonds] (Some \<lparr>cards = [mkCard R2 Spades], htype = Single, strength = 123\<rparr>) False (Some [5, 5, 1]) (Some 0) (Some 1) = Inr None
   \<and> htype \<lparr>cards = [mkCard RK Spades], htype = Single, strength = 103\<rparr> = Single \<and> list_all (\<lambda>c. \<not> getCardWeight c > strength \<lparr>cards = [mkCard RK Spades], htype = Single, strength = 103\<rparr>) [mkCard R3 Clubs, mkCard RJ Diamonds, mkCard R5 Hearts, mkCard R3 Diamonds]
   \<and> \<not> (\<exists>cs h. mset cs \<subseteq># mset [mkCard R3 Clubs, mkCard RJ Diamonds, mkCard R5 Hearts, mkCard R3 Diamonds] \<and> identifyHand cs = Some h \<and> isBomb h)
   \<and> [mkCard R3 Clubs, mkCard RJ Diamonds, mkCard R5 Hearts, mkCard R3 Diamonds] \<noteq> []
   \<and> chooseBestMove [mkCard R3 Clubs, mkCard RJ Diamonds, mkCard R5 Hearts, mkCard R3 Diamonds] (evaluateHand [mkCard R3 Clubs, mkCard RJ Diamonds, mkCard R5 Hearts, mkCard R3 Diamonds]) \<lparr>myHandSize = 4, opponentsHandSizes = [5, 5, 1], lastPlayedHand = Some \<lparr>cards = [mkCard RK Spades], htype = Single, strength = 103\<rparr>, consecutivePasses = 0\<rparr> = None
   \<and> getSmartBotPlay [mkCard R3 Clubs, mkCard RJ Diamonds, mkCard R5 Hearts, mkCard R3 Diamonds] (Some \<lparr>cards = [mkCard RK Spades], htype = Single, strength = 103\<rparr>) False (Some [5, 5, 1]) (Some 0) (Some 1) = Inr None"
proof -
  have r0: "identifyHand [mkCard R2 Spades] = Some \<lparr>cards = [mkCard R2 Spades], htype = Single, strength = 123\<rparr>"
    by (simp add: identifyHand_single mkCard_def getCardWeight_def)
  have none: "\<not> (\<exists>cs h. mset cs \<subseteq># mset [mkCard R4 Spades, mkCard R3 Clubs, mkCard R4 Diamonds] \<and> identifyHand cs = Some h \<and> compareHands h \<lparr>cards = [mkCard R2 Spades], htype = Single, strength = 123\<rparr>)"
  proof
    assume "\<exists>cs h. mset cs \<subseteq># mset [mkCard R4 Spades, mkCard R3 Clubs, mkCard R4 Diamonds] \<and> identifyHand cs = Some h \<and> compareHands h \<lparr>cards = [mkCard R2 Spades], htype = Single, strength = 123\<rparr>"
    then obtain cs where "\<exists>h. mset cs \<subseteq># mset [mkCard R4 Spades, mkCard R3 Clubs, mkCard R4 Diamonds] \<and> identifyHand cs = Some h \<and> compareHands h \<lparr>cards = [mkCard R2 Spades], htype = Single, strength = 123\<rparr>" ..
    then obtain h where a: "mset cs \<subseteq># mset [mkCard R4 Spades, mkCard R3 Clubs, mkCard R4 Diamonds] \<and> identifyHand cs = Some h \<and> compareHands h \<lparr>cards = [mkCard R2 Spades], htype = Single, strength = 123\<rparr>" ..
    then have "size (mset cs) \<le> size (mset [mkCard R4 Spades, mkCard R3 Clubs, mkCard R4 Diamonds])" by (intro size_mset_mono) simp
    then have len: "length cs \<le> 3" by simp
    from a have h: "identifyHand cs = Some h" and beats: "compareHands h \<lparr>cards = [mkCard R2 Spades], htype = Single, strength = 123\<rparr>" by simp_all
    from identifyHand_shape [OF h] len consider
        (single) "htype h = Single" "length cs = 1" | (pair) "htype h = PairH"
      by auto
    then have "\<not> compareHands h \<lparr>cards = [mkCard R2 Spades], htype = Single, strength = 123\<rparr>"
    proof cases
      case single
      then have "strength h = getCardWeight (sortCards cs ! 0)"
        using h by (auto simp: identifyHand_def Let_def)
      then have "strength h \<le> 123" using weight_max by simp
      then show ?thesis using single by (simp add: compareHands_def isBomb_def)
    next
      case pair
      then show ?thesis by (simp add: compareHands_def isBomb_def)
    qed
    then show False using beats ..
  qed
  have ne0: "[mkCard R4 Spades, mkCard R3 Clubs, mkCard R4 Diamonds] \<noteq> []" and ne1: "[mkCard R3 Clubs, mkCard RJ Diamonds, mkCard R5 Hearts, mkCard R3 Diamonds] \<noteq> []" by simp_all
  have s1: "htype \<lparr>cards = [mkCard RK Spades], htype = Single, strength = 103\<rparr> = Single" by simp
  have w1: "list_all (\<lambda>c. \<not> getCardWeight c > strength \<lparr>cards = [mkCard RK Spades], htype = Single, strength = 103\<rparr>) [mkCard R3 Clubs, mkCard RJ Diamonds, mkCard R5 Hearts, mkCard R3 Diamonds]"
    by (simp add: mkCard_def getCardWeight_def)
  have nb1: "\<not> (\<exists>cs h. mset cs \<subseteq># mset [mkCard R3 Clubs, mkCard RJ Diamonds, mkCard R5 Hearts, mkCard R3 Diamonds] \<and> identifyHand cs = Some h \<and> isBomb h)"
  proof
    assume "\<exists>cs h. mset cs \<subseteq># mset [mkCard R3 Clubs, mkCard RJ Diamonds, mkCard R5 Hearts, mkCard R3 Diamonds] \<and> identifyHand cs = Some h \<and> isBomb h"
    then obtain cs where "\<exists>h. mset cs \<subseteq># mset [mkCard R3 Clubs, mkCard RJ Diamonds, mkCard R5 Hearts, mkCard R3 Diamonds] \<and> identifyHand cs = Some h \<and> isBomb h" ..
    then obtain h where a: "mset cs \<subseteq># mset [mkCard R3 Clubs, mkCard RJ Diamonds, mkCard R5 Hearts, mkCard R3 Diamonds] \<and> identifyHand cs = Some h \<and> isBomb h" ..
    then have "size (mset cs) \<le> size (mset [mkCard R3 Clubs, mkCard RJ Diamonds, mkCard R5 Hearts, mkCard R3 Diamonds])" by (intro size_mset_mono) simp
    then have len: "length cs \<le> 4" by simp
    from a have h: "identifyHand cs = Some h" and b: "isBomb h" by simp_all
    from identifyHand_shape [OF h] len b show False by (auto simp: isBomb_def)
  qed
  note gen = C7_pass_when_nothing_beats [where rc = "[mkCard R2 Spades]" and ref = "\<lparr>cards = [mkCard R2 Spades], htype = Single, strength = 123\<rparr>"
      and hnd = "[mkCard R4 Spades, mkCard R3 Clubs, mkCard R4 Diamonds]" and n = 3 and sizes = "[5, 5, 1]" and k = 0 and nxt = "Some 1"
      and opp = "Some [5, 5, 1]" and passes = "Some 0", THEN conjunct1, THEN mp,
      OF conjI [OF r0 none]]
  note par = C7_pass_when_nothing_beats [where ref = "\<lparr>cards = [mkCard RK Spades], htype = Single, strength = 103\<rparr>"
      and hnd = "[mkCard R3 Clubs, mkCard RJ Diamonds, mkCard R5 Hearts, mkCard R3 Diamonds]" and n = 4 and sizes = "[5, 5, 1]" and k = 0 and nxt = "Some 1"
      and opp = "Some [5, 5, 1]" and passes = "Some 0", THEN conjunct2, THEN mp,
      OF conjI [OF s1 conjI [OF w1 nb1]]]
  have g1: "chooseBestMove [mkCard R4 Spades, mkCard R3 Clubs, mkCard R4 Diamonds] (evaluateHand [mkCard R4 Spades, mkCard R3 Clubs, mkCard R4 Diamonds]) \<lparr>myHandSize = 3, opponentsHandSizes = [5, 5, 1], lastPlayedHand = Some \<lparr>cards = [mkCard R2 Spades], htype = Single, strength = 123\<rparr>, consecutivePasses = 0\<rparr> = None" by (rule gen [THEN conjunct1])
  have g2: "getSmartBotPlay [mkCard R4 Spades, mkCard R3 Clubs, mkCard R4 Diamonds] (Some \<lparr>cards = [mkCard R2 Spades], htype = Single, strength = 123\<rparr>) False (Some [5, 5, 1]) (Some 0) (Some 1) = Inr None"
    by (rule gen [THEN conjunct2, THEN mp]) (simp add: ne0)
  have p1: "chooseBestMove [mkCard R3 Clubs, mkCard RJ Diamonds, mkCard R5 Hearts, mkCard R3 Diamonds] (evaluateHand [mkCard R3 Clubs, mkCard RJ Diamonds, mkCard R5 Hearts, mkCard R3 Diamonds]) \<lparr>myHandSize = 4, opponentsHandSizes = [5, 5, 1], lastPlayedHand = Some \<lparr>cards = [mkCard RK Spades], htype = Single, strength = 103\<rparr>, consecutivePasses = 0\<rparr> = None" by (rule par [THEN conjunct1])
  have p2: "getSmartBotPlay [mkCard R3 Clubs, mkCard RJ Diamonds, mkCard R5 Hearts, mkCard R3 Diamonds] (Some \<lparr>cards = [mkCard RK Spades], htype = Single, strength = 103\<rparr>) False (Some [5, 5, 1]) (Some 0) (Some 1) = Inr None"
    by (rule par [THEN conjunct2, THEN mp]) (simp add: ne1)
  show ?thesis by (intro conjI r0 none ne0 g1 g2 s1 w1 nb1 ne1 p1 p2)
qed

text \<open>
  The input left out of the theorem: with an empty hand, a Single reference and a next
  player holding one card, the rank-based bot reads the last card of the empty sorted hand
  and raises.  No turn is given to a player without cards.
\<close>

lemma follow_single_empty_hand:
  "getSmartBotPlay [] (Some \<lparr>cards = [mkCard R3 Clubs], htype = Single, strength = 0\<rparr>)
        False (Some [5, 5, 1]) (Some 0) (Some 1) = Inl TypeError"
  by code_simp

end
